theory Spec2Isabelle
  imports Main "HOL-Library.AList"
begin

section \<open>Values of the configuration document\<close>

text \<open>
  A configuration document is what \<^verbatim>\<open>parseJSONC\<close> returns or what the program builds
  in memory: objects, arrays and scalars. \<^verbatim>\<open>undefined\<close> is a value of its own, since an
  in-memory object may hold a key whose value is \<^verbatim>\<open>undefined\<close>. An object is the list
  of its own properties in insertion order; numbers are integers (the numeric fields of
  the document are line widths and indent sizes); a string is the list of its characters.
\<close>

datatype jval =
    JUndef
  | JNull
  | JBool bool
  | JNum int
  | JStr string
  | JArr "jval list"
  | JObj "(string \<times> jval) list"

type_synonym obj = "(string \<times> jval) list"

datatype error = TypeError | IOFailure string | ErrorMsg string

fun isPlainObject :: "jval \<Rightarrow> bool" where
  "isPlainObject (JObj kvs) = True"
| "isPlainObject v = False"

fun isArray :: "jval \<Rightarrow> bool" where
  "isArray (JArr xs) = True"
| "isArray v = False"

text \<open>\<^verbatim>\<open>typeof v === "object" && v !== null\<close>: true of arrays as well as of objects.\<close>

definition typeofObject :: "jval \<Rightarrow> bool" where
  "typeofObject v = (isPlainObject v \<or> isArray v)"

definition nullish :: "jval \<Rightarrow> bool" where
  "nullish v = (v = JUndef \<or> v = JNull)"

text \<open>\<^verbatim>\<open>a ?? b\<close>\<close>

definition coalesce :: "jval \<Rightarrow> jval \<Rightarrow> jval" where
  "coalesce a b = (if nullish a then b else a)"

subsection \<open>Decimal numerals, as \<^verbatim>\<open>String(n)\<close> and array indices print them\<close>

definition digit_char :: "nat \<Rightarrow> char" where
  "digit_char d = char_of (48 + d)"

fun string_of_nat :: "nat \<Rightarrow> string" where
  "string_of_nat n =
     (if n < 10 then [digit_char n] else string_of_nat (n div 10) @ [digit_char (n mod 10)])"

declare string_of_nat.simps [simp del]

definition string_of_int :: "int \<Rightarrow> string" where
  "string_of_int i = (if i < 0 then CHR ''-'' # string_of_nat (nat (- i)) else string_of_nat (nat i))"

subsection \<open>Own properties\<close>

text \<open>
  The own index properties of an array (or of a string): \<^verbatim>\<open>"0"\<close>, \<^verbatim>\<open>"1"\<close>, ...
  These are what an object spread copies.
\<close>

definition indexed :: "'a list \<Rightarrow> (string \<times> 'a) list" where
  "indexed xs = zip (map string_of_nat [0 ..< length xs]) xs"

fun ownEntries :: "jval \<Rightarrow> obj" where
  "ownEntries (JObj kvs) = kvs"
| "ownEntries (JArr xs) = indexed xs"
| "ownEntries (JStr s) = indexed (map (\<lambda>c. JStr [c]) s)"
| "ownEntries v = []"

definition lengthKey :: string where
  "lengthKey = ''length''"

text \<open>
  \<^verbatim>\<open>v[key]\<close> for a value that is neither \<^verbatim>\<open>null\<close> nor \<^verbatim>\<open>undefined\<close> (reading a
  property of those throws, which the callers below model before they call this).
  Only own properties are modelled: the members that every object inherits from its
  prototype (\<^verbatim>\<open>toString\<close>, \<^verbatim>\<open>constructor\<close>, ...) are functions, which no document
  holds and no schema of the program names.
\<close>

definition getProp :: "jval \<Rightarrow> string \<Rightarrow> jval" where
  "getProp v key =
     (case map_of (ownEntries v) key of
        Some x \<Rightarrow> x
      | None \<Rightarrow>
          (case v of
             JArr xs \<Rightarrow> if key = lengthKey then JNum (int (length xs)) else JUndef
           | JStr s \<Rightarrow> if key = lengthKey then JNum (int (length s)) else JUndef
           | _ \<Rightarrow> JUndef))"

text \<open>\<^verbatim>\<open>key in v\<close> for an object or an array.\<close>

definition hasProp :: "jval \<Rightarrow> string \<Rightarrow> bool" where
  "hasProp v key = (key \<in> fst ` set (ownEntries v) \<or> (isArray v \<and> key = lengthKey))"

text \<open>
  \<^verbatim>\<open>result[key] = value\<close> on an object: an existing key keeps its place, a new key
  goes to the end.
\<close>

definition setProp :: "string \<Rightarrow> jval \<Rightarrow> obj \<Rightarrow> obj" where
  "setProp key v kvs = AList.update key v kvs"

text \<open>\<^verbatim>\<open>{ ...r, ...v }\<close>: the own properties of \<open>v\<close> assigned, in order, onto \<open>r\<close>.\<close>

definition spreadInto :: "obj \<Rightarrow> jval \<Rightarrow> obj" where
  "spreadInto r v = foldl (\<lambda>acc (k, x). setProp k x acc) r (ownEntries v)"

section \<open>Deep Merger\<close>

text \<open>
  \<^verbatim>\<open>deepMerge(target, source)\<close>: \<open>result\<close> starts as a copy of \<open>target\<close>; the loop runs
  over the own keys of \<open>source\<close> in order (\<open>mergeKeys\<close> is the loop, with \<open>result\<close> as
  its state).
\<close>

fun deepMerge :: "obj \<Rightarrow> obj \<Rightarrow> obj"
  and mergeKeys :: "obj \<Rightarrow> obj \<Rightarrow> obj \<Rightarrow> obj" where
  "deepMerge target source = mergeKeys target source target"
| "mergeKeys target [] result = result"
| "mergeKeys target ((key, sourceValue) # rest) result =
     mergeKeys target rest
       (if sourceValue \<noteq> JUndef then
          (case sourceValue of
             JObj s \<Rightarrow>
               (case getProp (JObj target) key of
                  JObj t \<Rightarrow> setProp key (JObj (deepMerge t s)) result
                | _ \<Rightarrow> setProp key sourceValue result)
           | _ \<Rightarrow> setProp key sourceValue result)
        else result)"

section \<open>Schema nodes and the Schema Validator\<close>

text \<open>
  Modelled from the spec: the schema declaration (\<^verbatim>\<open>schemaConfig\<close>) and the validator
  \<^verbatim>\<open>Value.Check\<close> that the program imports are not among the sources. A schema node
  is an object node (declared properties in declaration order, the required names, and
  whether unknown properties are rejected) or a leaf node (a type, a literal, a union, an
  array of a node); a record node is the object type without declared properties (free
  keys, every value of one node).
\<close>

datatype schema =
    TUnknown
  | TNull
  | TBoolean
  | TNumber
  | TString
  | TLiteral jval
  | TUnion "schema list"
  | TArray schema
  | TRecord schema
  | TObject "(string \<times> schema) list" "string list" bool

text \<open>
  Modelled from the spec: \<^verbatim>\<open>Value.Check(schema, value)\<close> (section 4.1). For an object
  node the value must be an object that is not an array; a required property must not
  be missing; a declared property that is present is checked against its node; and when
  unknown properties are rejected every key of the value must be declared.
\<close>

fun Check :: "schema \<Rightarrow> jval \<Rightarrow> bool" where
  "Check TUnknown v = True"
| "Check TNull v = (v = JNull)"
| "Check TBoolean v = (case v of JBool b \<Rightarrow> True | _ \<Rightarrow> False)"
| "Check TNumber v = (case v of JNum n \<Rightarrow> True | _ \<Rightarrow> False)"
| "Check TString v = (case v of JStr s \<Rightarrow> True | _ \<Rightarrow> False)"
| "Check (TLiteral c) v = (v = c)"
| "Check (TUnion ss) v = list_ex (\<lambda>s. Check s v) ss"
| "Check (TArray s) v = (case v of JArr xs \<Rightarrow> list_all (Check s) xs | _ \<Rightarrow> False)"
| "Check (TRecord s) v =
     (case v of JObj kvs \<Rightarrow> list_all (\<lambda>kv. Check s (snd kv)) kvs | _ \<Rightarrow> False)"
| "Check (TObject props required rejectUnknown) v =
     (case v of
        JObj kvs \<Rightarrow>
          list_all (\<lambda>k. k \<in> fst ` set kvs) required
          \<and> list_all (\<lambda>p. fst p \<in> fst ` set kvs \<longrightarrow> Check (snd p) (getProp v (fst p))) props
          \<and> (rejectUnknown \<longrightarrow> list_all (\<lambda>kv. fst kv \<in> fst ` set props) kvs)
      | _ \<Rightarrow> False)"

text \<open>\<^verbatim>\<open>schema.type === "object" && schema.properties\<close>\<close>

fun isObjectSchema :: "schema \<Rightarrow> bool" where
  "isObjectSchema (TObject props required rejectUnknown) = True"
| "isObjectSchema s = False"

text \<open>\<^verbatim>\<open>"type" in subSchema && subSchema["type"] === "object"\<close>\<close>

fun typeIsObject :: "schema \<Rightarrow> bool" where
  "typeIsObject (TObject props required rejectUnknown) = True"
| "typeIsObject (TRecord s) = True"
| "typeIsObject s = False"

section \<open>Single-Field Validator\<close>

definition createSinglePropertySchema :: "string \<Rightarrow> schema \<Rightarrow> schema" where
  "createSinglePropertySchema key subSchema = TObject [(key, subSchema)] [key] True"

definition fixSingleProperty :: "schema \<Rightarrow> string \<Rightarrow> jval \<Rightarrow> jval \<Rightarrow> jval" where
  "fixSingleProperty schema propName userValue defaultValue =
     (let singlePropertySchema = createSinglePropertySchema propName schema;
          testObject = JObj [(propName, userValue)];
          isValid = Check singlePropertySchema testObject
      in if isValid then userValue else defaultValue)"

section \<open>Clean GitHub URL\<close>

text \<open>
  Characters are the code units below 256. \<^verbatim>\<open>trim\<close> removes the white space and line
  terminators among them; the flag \<^verbatim>\<open>i\<close> of a pattern of ASCII letters folds the ASCII
  letters only.
\<close>

definition isWhiteSpace :: "char \<Rightarrow> bool" where
  "isWhiteSpace c =
     (c \<in> set [CHR 0x09, CHR 0x0A, CHR 0x0B, CHR 0x0C, CHR 0x0D, CHR 0x20, CHR 0xA0])"

definition trim :: "string \<Rightarrow> string" where
  "trim s = rev (dropWhile isWhiteSpace (rev (dropWhile isWhiteSpace s)))"

definition lowerAscii :: "char \<Rightarrow> char" where
  "lowerAscii c =
     (if 65 \<le> (of_char c :: nat) \<and> (of_char c :: nat) \<le> 90 then char_of ((of_char c :: nat) + 32) else c)"

text \<open>A pattern of literal characters anchored at the start: the rest of the input after it.\<close>

fun stripPrefix :: "string \<Rightarrow> string \<Rightarrow> string option" where
  "stripPrefix [] s = Some s"
| "stripPrefix (p # ps) [] = None"
| "stripPrefix (p # ps) (c # cs) = (if c = p then stripPrefix ps cs else None)"

text \<open>The same with the flag \<^verbatim>\<open>i\<close>; the pattern is written in lower case.\<close>

fun stripPrefixCI :: "string \<Rightarrow> string \<Rightarrow> string option" where
  "stripPrefixCI [] s = Some s"
| "stripPrefixCI (p # ps) [] = None"
| "stripPrefixCI (p # ps) (c # cs) = (if lowerAscii c = p then stripPrefixCI ps cs else None)"

text \<open>An optional group: taken when it matches (no later part of the patterns below can
  match where the group does, so taking it greedily is what the matcher does).\<close>

definition optionalCI :: "string \<Rightarrow> string \<Rightarrow> string" where
  "optionalCI pat s = (case stripPrefixCI pat s of Some r \<Rightarrow> r | None \<Rightarrow> s)"

text \<open>\<^verbatim>\<open>(github|gitlab|bitbucket|sourcehut)\.com\/\<close> at the start, flag \<^verbatim>\<open>i\<close>.\<close>

fun stripHost :: "string list \<Rightarrow> string \<Rightarrow> string option" where
  "stripHost [] s = None"
| "stripHost (h # hs) s =
     (case stripPrefixCI (h @ ''.com/'') s of Some r \<Rightarrow> Some r | None \<Rightarrow> stripHost hs s)"

definition hosts :: "string list" where
  "hosts = [''github'', ''gitlab'', ''bitbucket'', ''sourcehut'']"

text \<open>\<^verbatim>\<open>^https?:\/\/(www\.)?(github|gitlab|bitbucket|sourcehut)\.com\/\<close>, flag \<^verbatim>\<open>i\<close>.\<close>

definition stripUrlHost :: "string \<Rightarrow> string option" where
  "stripUrlHost s =
     (case stripPrefixCI ''http'' s of
        None \<Rightarrow> None
      | Some a \<Rightarrow>
          (case stripPrefixCI ''://'' (optionalCI ''s'' a) of
             None \<Rightarrow> None
           | Some b \<Rightarrow> stripHost hosts (optionalCI ''www.'' b)))"

text \<open>\<^verbatim>\<open>.replace(/\.git$/i, "")\<close>\<close>

definition stripGitSuffix :: "string \<Rightarrow> string" where
  "stripGitSuffix s =
     (if 4 \<le> length s \<and> map lowerAscii (drop (length s - 4) s) = ''.git''
      then take (length s - 4) s else s)"

definition cleanGitHubUrl :: "string \<Rightarrow> string" where
  "cleanGitHubUrl url =
     (let s0 = trim url;
          s1 = (case stripPrefix ''git+'' s0 of Some r \<Rightarrow> r | None \<Rightarrow> s0);
          s2 = (case stripUrlHost s1 of Some r \<Rightarrow> r | None \<Rightarrow> s1);
          s3 = (case stripHost hosts s2 of Some r \<Rightarrow> r | None \<Rightarrow> s2)
      in stripGitSuffix s3)"

text \<open>\<^verbatim>\<open>String(v)\<close>: an array prints its elements joined by commas, \<^verbatim>\<open>null\<close> and
  \<^verbatim>\<open>undefined\<close> elements as nothing.\<close>

fun joinComma :: "string list \<Rightarrow> string" where
  "joinComma [] = []"
| "joinComma [s] = s"
| "joinComma (s # t # ss) = s @ '','' @ joinComma (t # ss)"

fun String :: "jval \<Rightarrow> string" where
  "String JUndef = ''undefined''"
| "String JNull = ''null''"
| "String (JBool b) = (if b then ''true'' else ''false'')"
| "String (JNum n) = string_of_int n"
| "String (JStr s) = s"
| "String (JArr xs) = joinComma (map (\<lambda>x. if nullish x then [] else String x) xs)"
| "String (JObj kvs) = ''[object Object]''"

section \<open>Line-by-Line Repairer\<close>

definition isRepoProp :: "string \<Rightarrow> bool" where
  "isRepoProp propName =
     (propName = ''customUserFocusedRepos'' \<or> propName = ''customDevsFocusedRepos'')"

text \<open>\<^verbatim>\<open>userValue.map((url) => cleanGitHubUrl(String(url)))\<close> on an array.\<close>

fun cleanRepos :: "jval \<Rightarrow> jval" where
  "cleanRepos (JArr xs) = JArr (map (\<lambda>url. JStr (cleanGitHubUrl (String url))) xs)"
| "cleanRepos v = v"

definition entireObject :: string where
  "entireObject = ''<entire_object>''"

text \<open>
  \<^verbatim>\<open>fixLineByLine(userConfig, defaultConfig, schema)\<close> returns the pair of
  \<open>fixedConfig\<close> and \<open>changedKeys\<close>. \<open>fixProperties\<close> is the loop over
  \<^verbatim>\<open>Object.keys(properties)\<close>, with \<open>result\<close> and \<open>changedKeys\<close> as its state. Each
  round first reads \<^verbatim>\<open>defaultConfig[propName]\<close>, which throws a \<^verbatim>\<open>TypeError\<close> when
  the default is \<^verbatim>\<open>null\<close> or \<^verbatim>\<open>undefined\<close>; nothing catches it in the function.
  The list \<open>missingKeys\<close> is only logged and is left out.
\<close>

fun fixLineByLine :: "jval \<Rightarrow> jval \<Rightarrow> schema \<Rightarrow> error + (jval \<times> string list)"
  and fixProperties ::
    "jval \<Rightarrow> jval \<Rightarrow> (string \<times> schema) list \<Rightarrow> obj \<times> string list \<Rightarrow> error + (obj \<times> string list)"
  where
  "fixLineByLine userConfig defaultConfig (TObject properties required rejectUnknown) =
     (if \<not> typeofObject userConfig then
        (let isValid = Check (TObject properties required rejectUnknown) userConfig
         in Inr (if isValid then userConfig else defaultConfig,
                 if isValid then [] else [entireObject]))
      else
        (case fixProperties userConfig defaultConfig properties
                (ownEntries (coalesce defaultConfig (JObj [])), []) of
           Inl e \<Rightarrow> Inl e
         | Inr (result, changedKeys) \<Rightarrow> Inr (JObj result, changedKeys)))"
| "fixLineByLine userConfig defaultConfig schema =
     (let isValid = Check schema userConfig
      in Inr (if isValid then userConfig else defaultConfig,
              if isValid then [] else [entireObject]))"
| "fixProperties userConfig defaultConfig [] (result, changedKeys) = Inr (result, changedKeys)"
| "fixProperties userConfig defaultConfig ((propName, subSchema) # rest) (result, changedKeys) =
     (if nullish defaultConfig then Inl TypeError
      else
        (let userValue = getProp userConfig propName;
             defaultValue = getProp defaultConfig propName
         in
           if userValue = JUndef \<and> \<not> hasProp userConfig propName then
             fixProperties userConfig defaultConfig rest
               (setProp propName defaultValue result, changedKeys)
           else if isRepoProp propName \<and> isArray userValue then
             fixProperties userConfig defaultConfig rest
               (setProp propName (cleanRepos userValue) result, changedKeys)
           else if \<not> Check (createSinglePropertySchema propName subSchema)
                          (JObj [(propName, userValue)]) then
             fixProperties userConfig defaultConfig rest
               (setProp propName defaultValue result, changedKeys @ [propName])
           else if typeIsObject subSchema then
             (case fixLineByLine userValue defaultValue subSchema of
                Inl e \<Rightarrow> Inl e
              | Inr (fixedConfig, nestedChanges) \<Rightarrow>
                  fixProperties userConfig defaultConfig rest
                    (setProp propName fixedConfig result,
                     changedKeys @ map (\<lambda>nc. propName @ ''.'' @ nc) nestedChanges))
           else
             (let originalValue = userValue;
                  validatedValue = fixSingleProperty subSchema propName userValue defaultValue
              in fixProperties userConfig defaultConfig rest
                   (setProp propName validatedValue result,
                    if originalValue \<noteq> JUndef \<and> validatedValue \<noteq> originalValue
                    then changedKeys @ [propName] else changedKeys))))"

text \<open>The assignments of a spread, one after the other.\<close>

definition assignAll :: "obj \<Rightarrow> obj \<Rightarrow> obj" where
  "assignAll r src = foldl (\<lambda>acc (k, x). setProp k x acc) r src"

section \<open>JSON text\<close>

definition dq :: char where "dq = CHR 0x22"
definition bs :: char where "bs = CHR 0x5C"
definition nl :: char where "nl = CHR 0x0A"

definition indent :: "nat \<Rightarrow> string" where
  "indent n = replicate n (CHR '' '')"

fun joinWith :: "string \<Rightarrow> string list \<Rightarrow> string" where
  "joinWith sep [] = []"
| "joinWith sep [s] = s"
| "joinWith sep (s # t # ss) = s @ sep @ joinWith sep (t # ss)"

definition hexDigit :: "nat \<Rightarrow> char" where
  "hexDigit d = (if d < 10 then char_of (48 + d) else char_of (87 + d))"

text \<open>The escapes of \<^verbatim>\<open>JSON.stringify\<close> inside a string.\<close>

definition escapeChar :: "char \<Rightarrow> string" where
  "escapeChar c =
     (if c = dq then [bs, dq]
      else if c = bs then [bs, bs]
      else if c = CHR 0x08 then [bs, CHR ''b'']
      else if c = CHR 0x0C then [bs, CHR ''f'']
      else if c = CHR 0x0A then [bs, CHR ''n'']
      else if c = CHR 0x0D then [bs, CHR ''r'']
      else if c = CHR 0x09 then [bs, CHR ''t'']
      else if (of_char c :: nat) < 32 then
        [bs, CHR ''u'', CHR ''0'', CHR ''0'', hexDigit ((of_char c :: nat) div 16),
         hexDigit ((of_char c :: nat) mod 16)]
      else [c])"

definition quote :: "string \<Rightarrow> string" where
  "quote s = dq # concat (map escapeChar s) @ [dq]"

text \<open>
  \<^verbatim>\<open>JSON.stringify(value, null, 2)\<close> below the top level, at the indentation \<open>n\<close>: a
  member whose value is \<^verbatim>\<open>undefined\<close> is left out of an object, and an
  \<^verbatim>\<open>undefined\<close> element of an array is written \<^verbatim>\<open>null\<close>.
\<close>

fun serialize :: "nat \<Rightarrow> jval \<Rightarrow> string" where
  "serialize n JUndef = ''null''"
| "serialize n JNull = ''null''"
| "serialize n (JBool b) = (if b then ''true'' else ''false'')"
| "serialize n (JNum i) = string_of_int i"
| "serialize n (JStr s) = quote s"
| "serialize n (JArr xs) =
     (if xs = [] then ''[]''
      else ''['' @ [nl] @ indent (n + 2)
           @ joinWith ('','' @ [nl] @ indent (n + 2)) (map (serialize (n + 2)) xs)
           @ [nl] @ indent n @ '']'')"
| "serialize n (JObj kvs) =
     (if filter (\<lambda>kv. snd kv \<noteq> JUndef) kvs = [] then ''{}''
      else ''{'' @ [nl] @ indent (n + 2)
           @ joinWith ('','' @ [nl] @ indent (n + 2))
               (map (\<lambda>kv. quote (fst kv) @ '': '' @ serialize (n + 2) (snd kv))
                    (filter (\<lambda>kv. snd kv \<noteq> JUndef) kvs))
           @ [nl] @ indent n @ ''}'')"

text \<open>At the top level \<^verbatim>\<open>JSON.stringify(undefined)\<close> is \<^verbatim>\<open>undefined\<close>, not a string.\<close>

definition JSON_stringify :: "jval \<Rightarrow> string option" where
  "JSON_stringify v = (if v = JUndef then None else Some (serialize 0 v))"

subsection \<open>A parser of JSON with comments\<close>

text \<open>
  An instance of the parameter \<^verbatim>\<open>parseJSONC\<close> for the concrete cases: a parser of JSON
  with \<^verbatim>\<open>//\<close> and \<^verbatim>\<open>/* */\<close> comments and integer numbers. It returns
  \<^verbatim>\<open>undefined\<close> for any other text.
\<close>

datatype token =
    TkLBrace | TkRBrace | TkLBrack | TkRBrack | TkColon | TkComma
  | TkString string | TkNumber int | TkTrue | TkFalse | TkNull

definition hexValue :: "char \<Rightarrow> nat option" where
  "hexValue c =
     (let n = (of_char c :: nat) in
      if 48 \<le> n \<and> n \<le> 57 then Some (n - 48)
      else if 97 \<le> n \<and> n \<le> 102 then Some (n - 87)
      else if 65 \<le> n \<and> n \<le> 70 then Some (n - 55)
      else None)"

definition unescape :: "char \<Rightarrow> char option" where
  "unescape c =
     (if c = dq then Some dq
      else if c = bs then Some bs
      else if c = CHR ''/'' then Some (CHR ''/'')
      else if c = CHR ''b'' then Some (CHR 0x08)
      else if c = CHR ''f'' then Some (CHR 0x0C)
      else if c = CHR ''n'' then Some (CHR 0x0A)
      else if c = CHR ''r'' then Some (CHR 0x0D)
      else if c = CHR ''t'' then Some (CHR 0x09)
      else None)"

text \<open>The characters of a string after its opening quote, and the text after its closing quote.\<close>

fun lexString :: "string \<Rightarrow> (string \<times> string) option" where
  "lexString [] = None"
| "lexString [c] = (if c = dq then Some ([], []) else None)"
| "lexString (c # d # cs) =
     (if c = dq then Some ([], d # cs)
      else if c = bs then
        (case unescape d of
           Some ch \<Rightarrow> map_option (\<lambda>sr. (ch # fst sr, snd sr)) (lexString cs)
         | None \<Rightarrow>
             (case cs of
                h1 # h2 # h3 # h4 # rest \<Rightarrow>
                  (case (hexValue h1, hexValue h2, hexValue h3, hexValue h4) of
                     (Some a1, Some a2, Some a3, Some a4) \<Rightarrow>
                       if d = CHR ''u'' \<and> a1 = 0 \<and> a2 = 0 then
                         map_option (\<lambda>sr. (char_of (16 * a3 + a4) # fst sr, snd sr))
                           (lexString rest)
                       else None
                   | _ \<Rightarrow> None)
              | _ \<Rightarrow> None))
      else map_option (\<lambda>sr. (c # fst sr, snd sr)) (lexString (d # cs)))"

definition isDigit :: "char \<Rightarrow> bool" where
  "isDigit c = (c \<in> set ''0123456789'')"

definition nat_of_digits :: "string \<Rightarrow> nat" where
  "nat_of_digits ds = foldl (\<lambda>acc c. 10 * acc + ((of_char c :: nat) - 48)) 0 ds"

text \<open>The text after the end of a block comment.\<close>

fun skipBlock :: "string \<Rightarrow> string option" where
  "skipBlock [] = None"
| "skipBlock [c] = None"
| "skipBlock (c # d # cs) =
     (if c = CHR ''*'' \<and> d = CHR ''/'' then Some cs else skipBlock (d # cs))"

fun lex :: "nat \<Rightarrow> string \<Rightarrow> token list option" where
  "lex fuel [] = Some []"
| "lex 0 (c # cs) = None"
| "lex (Suc fuel) (c # cs) =
     (if isWhiteSpace c then lex fuel cs
      else if c = CHR ''{'' then map_option (Cons TkLBrace) (lex fuel cs)
      else if c = CHR ''}'' then map_option (Cons TkRBrace) (lex fuel cs)
      else if c = CHR ''['' then map_option (Cons TkLBrack) (lex fuel cs)
      else if c = CHR '']'' then map_option (Cons TkRBrack) (lex fuel cs)
      else if c = CHR '':'' then map_option (Cons TkColon) (lex fuel cs)
      else if c = CHR '','' then map_option (Cons TkComma) (lex fuel cs)
      else if c = dq then
        (case lexString cs of
           None \<Rightarrow> None
         | Some (str, rest) \<Rightarrow> map_option (Cons (TkString str)) (lex fuel rest))
      else if c = CHR ''/'' then
        (case cs of
           [] \<Rightarrow> None
         | d # rest \<Rightarrow>
             if d = CHR ''/'' then lex fuel (dropWhile (\<lambda>x. x \<noteq> nl) rest)
             else if d = CHR ''*'' then
               (case skipBlock rest of None \<Rightarrow> None | Some rest' \<Rightarrow> lex fuel rest')
             else None)
      else if c = CHR ''-'' then
        (if takeWhile isDigit cs = [] then None
         else map_option (Cons (TkNumber (- int (nat_of_digits (takeWhile isDigit cs)))))
                (lex fuel (dropWhile isDigit cs)))
      else if isDigit c then
        map_option (Cons (TkNumber (int (nat_of_digits (takeWhile isDigit (c # cs))))))
          (lex fuel (dropWhile isDigit cs))
      else
        (case stripPrefix ''true'' (c # cs) of
           Some rest \<Rightarrow> map_option (Cons TkTrue) (lex fuel rest)
         | None \<Rightarrow>
             (case stripPrefix ''false'' (c # cs) of
                Some rest \<Rightarrow> map_option (Cons TkFalse) (lex fuel rest)
              | None \<Rightarrow>
                  (case stripPrefix ''null'' (c # cs) of
                     Some rest \<Rightarrow> map_option (Cons TkNull) (lex fuel rest)
                   | None \<Rightarrow> None))))"

text \<open>
  \<open>parseValue\<close> reads one value; \<open>parseElements\<close> the elements of an array up to its
  closing bracket and \<open>parseMembers\<close> the members of an object up to its closing
  brace. A key that occurs twice keeps its first place and its last value.
\<close>

fun parseValue :: "nat \<Rightarrow> token list \<Rightarrow> (jval \<times> token list) option"
  and parseElements :: "nat \<Rightarrow> token list \<Rightarrow> (jval list \<times> token list) option"
  and parseMembers :: "nat \<Rightarrow> token list \<Rightarrow> (obj \<times> token list) option"
  where
  "parseValue 0 ts = None"
| "parseValue (Suc fuel) [] = None"
| "parseValue (Suc fuel) (t # ts) =
     (case t of
        TkString s \<Rightarrow> Some (JStr s, ts)
      | TkNumber i \<Rightarrow> Some (JNum i, ts)
      | TkTrue \<Rightarrow> Some (JBool True, ts)
      | TkFalse \<Rightarrow> Some (JBool False, ts)
      | TkNull \<Rightarrow> Some (JNull, ts)
      | TkLBrack \<Rightarrow>
          (case ts of
             TkRBrack # rest \<Rightarrow> Some (JArr [], rest)
           | _ \<Rightarrow> map_option (\<lambda>xr. (JArr (fst xr), snd xr)) (parseElements fuel ts))
      | TkLBrace \<Rightarrow>
          (case ts of
             TkRBrace # rest \<Rightarrow> Some (JObj [], rest)
           | _ \<Rightarrow> map_option (\<lambda>mr. (JObj (assignAll [] (fst mr)), snd mr))
                    (parseMembers fuel ts))
      | _ \<Rightarrow> None)"
| "parseElements 0 ts = None"
| "parseElements (Suc fuel) ts =
     (case parseValue fuel ts of
        Some (v, TkComma # rest) \<Rightarrow>
          map_option (\<lambda>xr. (v # fst xr, snd xr)) (parseElements fuel rest)
      | Some (v, TkRBrack # rest) \<Rightarrow> Some ([v], rest)
      | _ \<Rightarrow> None)"
| "parseMembers 0 ts = None"
| "parseMembers (Suc fuel) ts =
     (case ts of
        TkString k # TkColon # ts' \<Rightarrow>
          (case parseValue fuel ts' of
             Some (v, TkComma # rest) \<Rightarrow>
               map_option (\<lambda>mr. ((k, v) # fst mr, snd mr)) (parseMembers fuel rest)
           | Some (v, TkRBrace # rest) \<Rightarrow> Some ([(k, v)], rest)
           | _ \<Rightarrow> None)
      | _ \<Rightarrow> None)"

definition strictJSONC :: "string \<Rightarrow> jval" where
  "strictJSONC text =
     (case lex (Suc (length text)) text of
        None \<Rightarrow> JUndef
      | Some ts \<Rightarrow>
          (case parseValue (2 * length ts + 2) ts of
             Some (v, []) \<Rightarrow> v
           | _ \<Rightarrow> JUndef))"

section \<open>Default Document and merging with defaults\<close>

text \<open>
  The constants that the program imports from modules that are not among the sources
  (\<^verbatim>\<open>~/app/constants.js\<close>, \<^verbatim>\<open>./schemaConfig.js\<close>), the two facts about the
  running system that the Default Document reads (\<^verbatim>\<open>isBunPM()\<close> and
  \<^verbatim>\<open>runtimeInfo?.name\<close>, the empty string when there is none) and the parser
  \<^verbatim>\<open>parseJSONC\<close> of the library \<^verbatim>\<open>confbox\<close> are parameters. The parser returns
  \<^verbatim>\<open>undefined\<close> for a text it cannot read.
\<close>

record env =
  RELIVERSE_SCHEMA_URL :: string
  UNKNOWN_VALUE :: string
  DEFAULT_DOMAIN :: string
  cliName :: string
  cliDomainDocs :: string
  cliConfigJsonc :: string
  isBunPM :: bool
  runtimeName :: string
  reliverseConfigSchema :: schema
  parseJSONC :: "string \<Rightarrow> jval"

definition DEFAULT_preferredLibraries :: obj where
  "DEFAULT_preferredLibraries =
     [(''stateManagement'', JStr ''zustand''),
      (''formManagement'', JStr ''react-hook-form''),
      (''styling'', JStr ''tailwind''),
      (''uiComponents'', JStr ''shadcn-ui''),
      (''testing'', JStr ''bun''),
      (''authentication'', JStr ''clerk''),
      (''database'', JStr ''drizzle''),
      (''api'', JStr ''trpc'')]"

definition DEFAULT_monorepo :: obj where
  "DEFAULT_monorepo =
     [(''type'', JStr ''none''), (''packages'', JArr []), (''sharedPackages'', JArr [])]"

definition DEFAULT_features :: obj where
  "DEFAULT_features =
     [(''i18n'', JBool False),
      (''analytics'', JBool False),
      (''themeMode'', JStr ''dark-light''),
      (''authentication'', JBool True),
      (''api'', JBool True),
      (''database'', JBool True),
      (''testing'', JBool False),
      (''docker'', JBool False),
      (''ci'', JBool False),
      (''commands'', JArr []),
      (''webview'', JArr []),
      (''language'', JArr []),
      (''themes'', JArr [])]"

definition DEFAULT_modernize :: obj where
  "DEFAULT_modernize =
     [(''replaceFs'', JBool False),
      (''replacePath'', JBool False),
      (''replaceHttp'', JBool False),
      (''replaceProcess'', JBool False),
      (''replaceConsole'', JBool False),
      (''replaceEvents'', JBool False)]"

definition DEFAULT_codeStyle :: obj where
  "DEFAULT_codeStyle =
     [(''dontRemoveComments'', JBool True),
      (''shouldAddComments'', JBool True),
      (''typeOrInterface'', JStr ''type''),
      (''importOrRequire'', JStr ''import''),
      (''quoteMark'', JStr ''double''),
      (''semicolons'', JBool True),
      (''lineWidth'', JNum 80),
      (''indentStyle'', JStr ''space''),
      (''indentSize'', JNum 2),
      (''importSymbol'', JStr ''~''),
      (''trailingComma'', JStr ''all''),
      (''bracketSpacing'', JBool True),
      (''arrowParens'', JStr ''always''),
      (''tabWidth'', JNum 2),
      (''jsToTs'', JBool False),
      (''cjsToEsm'', JBool False),
      (''modernize'', JObj DEFAULT_modernize)]"

definition DEFAULT_CONFIG :: "env \<Rightarrow> obj" where
  "DEFAULT_CONFIG e =
     [(''$schema'', JStr (RELIVERSE_SCHEMA_URL e)),
      (''projectName'', JStr (UNKNOWN_VALUE e)),
      (''projectAuthor'', JStr (UNKNOWN_VALUE e)),
      (''projectDescription'', JStr (UNKNOWN_VALUE e)),
      (''version'', JStr ''0.1.0''),
      (''projectLicense'', JStr ''MIT''),
      (''projectState'', JStr ''creating''),
      (''projectRepository'', JStr (DEFAULT_DOMAIN e)),
      (''projectDomain'', JStr (DEFAULT_DOMAIN e)),
      (''projectCategory'', JStr (UNKNOWN_VALUE e)),
      (''projectSubcategory'', JStr (UNKNOWN_VALUE e)),
      (''projectTemplate'', JStr (UNKNOWN_VALUE e)),
      (''projectArchitecture'', JStr (UNKNOWN_VALUE e)),
      (''repoPrivacy'', JStr (UNKNOWN_VALUE e)),
      (''projectGitService'', JStr ''github''),
      (''projectDeployService'', JStr ''vercel''),
      (''repoBranch'', JStr ''main''),
      (''projectFramework'', JStr ''nextjs''),
      (''projectPackageManager'', JStr (if isBunPM e then ''bun'' else ''npm'')),
      (''projectRuntime'', JStr (if runtimeName e = [] then ''node'' else runtimeName e)),
      (''preferredLibraries'', JObj DEFAULT_preferredLibraries),
      (''monorepo'', JObj DEFAULT_monorepo),
      (''ignoreDependencies'', JArr []),
      (''customRules'', JObj []),
      (''features'', JObj DEFAULT_features),
      (''codeStyle'', JObj DEFAULT_codeStyle),
      (''multipleRepoCloneMode'', JBool False),
      (''customUserFocusedRepos'', JArr []),
      (''customDevsFocusedRepos'', JArr []),
      (''hideRepoSuggestions'', JBool False),
      (''customReposOnNewProject'', JBool False),
      (''envComposerOpenBrowser'', JBool True),
      (''skipPromptsUseAutoBehavior'', JBool False),
      (''deployBehavior'', JStr ''prompt''),
      (''depsBehavior'', JStr ''prompt''),
      (''gitBehavior'', JStr ''prompt''),
      (''i18nBehavior'', JStr ''prompt''),
      (''scriptsBehavior'', JStr ''prompt''),
      (''existingRepoBehavior'', JStr ''prompt'')]"

text \<open>\<^verbatim>\<open>v?.key\<close>\<close>

definition optChain :: "jval \<Rightarrow> string \<Rightarrow> jval" where
  "optChain v key = (if nullish v then JUndef else getProp v key)"

text \<open>
  \<^verbatim>\<open>mergeWithDefaults(partial)\<close>: the object literal is built from left to right, the
  two spreads first and then the six named keys (which the spread of the Default
  Document has already put in place).
\<close>

definition mergeWithDefaults :: "env \<Rightarrow> jval \<Rightarrow> obj" where
  "mergeWithDefaults e partial =
     (let D = JObj (DEFAULT_CONFIG e);
          r0 = spreadInto (spreadInto [] D) partial;
          r1 = setProp ''features''
                 (JObj (spreadInto (spreadInto [] (getProp D ''features''))
                          (coalesce (getProp partial ''features'') (JObj [])))) r0;
          r2 = setProp ''codeStyle''
                 (JObj (setProp ''modernize''
                          (JObj (spreadInto
                                   (spreadInto [] (getProp (getProp D ''codeStyle'') ''modernize''))
                                   (coalesce (optChain (getProp partial ''codeStyle'') ''modernize'')
                                      (JObj []))))
                          (spreadInto (spreadInto [] (getProp D ''codeStyle''))
                             (coalesce (getProp partial ''codeStyle'') (JObj []))))) r1;
          r3 = setProp ''preferredLibraries''
                 (JObj (spreadInto (spreadInto [] (getProp D ''preferredLibraries''))
                          (coalesce (getProp partial ''preferredLibraries'') (JObj [])))) r2;
          r4 = setProp ''monorepo''
                 (JObj (spreadInto (spreadInto [] (getProp D ''monorepo''))
                          (coalesce (getProp partial ''monorepo'') (JObj [])))) r3;
          r5 = setProp ''customRules''
                 (JObj (spreadInto (spreadInto [] (getProp D ''customRules''))
                          (coalesce (getProp partial ''customRules'') (JObj [])))) r4;
          r6 = setProp ''ignoreDependencies''
                 (coalesce (getProp partial ''ignoreDependencies'') (getProp D ''ignoreDependencies''))
                 r5
      in r6)"

section \<open>Annotator\<close>

definition comment :: "string \<Rightarrow> string" where
  "comment text = (if text = [] then [] else ''// '' @ text)"

definition commentSections :: "env \<Rightarrow> (string \<times> string list) list" where
  "commentSections e =
     [(''$schema'',
         [comment (''RELIVERSE CONFIG ('' @ cliDomainDocs e @ '')''),
          comment (''This jsonc file is generated by '' @ cliName e),
          comment ''Restart the CLI to apply your config changes'']),
      (''projectName'', [comment ''General project information'']),
      (''skipPromptsUseAutoBehavior'',
         [comment ''Enable auto-answering for prompts to skip manual confirmations.'',
          comment ''Make sure you have unknown values configured above.'']),
      (''features'', [comment ''Project features'']),
      (''projectFramework'', [comment ''Primary tech stack/framework'']),
      (''codeStyle'', [comment ''Code style preferences'']),
      (''multipleRepoCloneMode'', [comment ''Settings for cloning an existing repo'']),
      (''envComposerOpenBrowser'',
         [comment ''Set to false to disable opening the browser during env composing'']),
      (''ignoreDependencies'', [comment ''List dependencies to exclude from checks'']),
      (''customRules'', [comment ''Custom rules for Reliverse AI'']),
      (''deployBehavior'',
         [comment ''Prompt behavior for deployment'',
          comment ''Options: prompt | autoYes | autoNo'']),
      (''existingRepoBehavior'',
         [comment ''Behavior for existing GitHub repos during project creation'',
          comment ''Options: prompt | autoYes | autoYesSkipCommit | autoNo''])]"

text \<open>The lines of a section joined by line feeds, every line but the first indented by two spaces.\<close>

definition combinedComments :: "string list \<Rightarrow> string" where
  "combinedComments lines =
     (case lines of
        [] \<Rightarrow> []
      | first # others \<Rightarrow> joinWith [nl] (first # map (\<lambda>line. ''  '' @ line) others))"

lemma stripPrefix_length: "stripPrefix pat s = Some rest \<Longrightarrow> length rest \<le> length s"
  by (induction pat s rule: stripPrefix.induct) (auto split: if_splits)

text \<open>
  \<^verbatim>\<open>text.replace(/(\s+)"section":/g, replacement)\<close>, with \<open>pat\<close> the quoted section name
  and its colon: a run of white space followed by \<open>pat\<close> is replaced, wherever it stands,
  and the search goes on after it. (The pattern begins with a quote, so only the whole
  run of white space can precede it.) The constants of the comments are taken to hold
  no \<^verbatim>\<open>$\<close>, which a replacement string would expand.
\<close>

function replaceSpaced :: "string \<Rightarrow> string \<Rightarrow> string \<Rightarrow> string" where
  "replaceSpaced pat repl [] = []"
| "replaceSpaced pat repl (c # cs) =
     (if isWhiteSpace c then
        (case stripPrefix pat (dropWhile isWhiteSpace cs) of
           Some rest \<Rightarrow> repl @ replaceSpaced pat repl rest
         | None \<Rightarrow> c # replaceSpaced pat repl cs)
      else c # replaceSpaced pat repl cs)"
  by pat_completeness auto
termination
proof (relation "measure (\<lambda>(pat, repl, text). length text)")
  fix pat repl :: string and c :: char and cs rest :: string
  assume "stripPrefix pat (dropWhile isWhiteSpace cs) = Some rest"
  then have "length rest \<le> length (dropWhile isWhiteSpace cs)" by (rule stripPrefix_length)
  also have "\<dots> \<le> length cs" by (rule length_dropWhile_le)
  finally show "((pat, repl, rest), (pat, repl, c # cs)) \<in> measure (\<lambda>(pat, repl, text). length text)"
    by simp
qed auto

text \<open>\<^verbatim>\<open>.replace(/\n{3,}/g, "\n\n")\<close>: of three line feeds in a row the first is dropped.\<close>

fun collapseNewlines :: "string \<Rightarrow> string" where
  "collapseNewlines (a # b # c # rest) =
     (if a = nl \<and> b = nl \<and> c = nl then collapseNewlines (b # c # rest)
      else a # collapseNewlines (b # c # rest))"
| "collapseNewlines s = s"

text \<open>\<^verbatim>\<open>.replace(/{\n\n/g, "{\n")\<close>\<close>

fun afterBrace :: "string \<Rightarrow> string" where
  "afterBrace (a # b # c # rest) =
     (if a = CHR ''{'' \<and> b = nl \<and> c = nl then CHR ''{'' # nl # afterBrace rest
      else a # afterBrace (b # c # rest))"
| "afterBrace s = s"

text \<open>\<^verbatim>\<open>.replace(/\n\n}/g, "\n}")\<close>\<close>

fun beforeBrace :: "string \<Rightarrow> string" where
  "beforeBrace (a # b # c # rest) =
     (if a = nl \<and> b = nl \<and> c = CHR ''}'' then nl # CHR ''}'' # beforeBrace rest
      else a # beforeBrace (b # c # rest))"
| "beforeBrace s = s"

text \<open>The loop over the sections, with \<open>fileContent\<close> as its state.\<close>

fun injectSections :: "(string \<times> string list) list \<Rightarrow> string \<Rightarrow> string" where
  "injectSections [] fileContent = fileContent"
| "injectSections ((section, lines) # others) fileContent =
     injectSections others
       (if lines = [] then fileContent
        else replaceSpaced (dq # section @ [dq, CHR '':''])
               ([nl, nl] @ ''  '' @ combinedComments lines @ [nl] @ ''  ''
                  @ dq # section @ [dq, CHR '':''])
               fileContent)"

definition injectSectionComments :: "env \<Rightarrow> string \<Rightarrow> string" where
  "injectSectionComments e fileContent =
     trim (beforeBrace (afterBrace (collapseNewlines
       (injectSections (commentSections e) fileContent)))) @ [nl]"

section \<open>The file system\<close>

text \<open>
  The files are a map from paths to contents. Every operation of \<^verbatim>\<open>fs\<close> but
  \<^verbatim>\<open>pathExists\<close> may throw: \<open>faults\<close> lists, for the operations to come, whether
  each throws (an operation beyond the end of the list does not). An operation that
  throws leaves the files as they are.
\<close>

record world =
  files :: "string \<rightharpoonup> string"
  faults :: "bool list"

definition takeFault :: "world \<Rightarrow> bool \<times> world" where
  "takeFault w = (case faults w of [] \<Rightarrow> (False, w) | f # fs \<Rightarrow> (f, w\<lparr>faults := fs\<rparr>))"

definition pathExists :: "string \<Rightarrow> world \<Rightarrow> bool" where
  "pathExists p w = (files w p \<noteq> None)"

definition readFile :: "string \<Rightarrow> world \<Rightarrow> (error + string) \<times> world" where
  "readFile p w =
     (case takeFault w of
        (True, w') \<Rightarrow> (Inl (IOFailure ''readFile''), w')
      | (False, w') \<Rightarrow>
          (case files w' p of
             None \<Rightarrow> (Inl (IOFailure ''readFile''), w')
           | Some content \<Rightarrow> (Inr content, w')))"

definition writeFile :: "string \<Rightarrow> string \<Rightarrow> world \<Rightarrow> (error + unit) \<times> world" where
  "writeFile p content w =
     (case takeFault w of
        (True, w') \<Rightarrow> (Inl (IOFailure ''writeFile''), w')
      | (False, w') \<Rightarrow> (Inr (), w'\<lparr>files := (files w')(p \<mapsto> content)\<rparr>))"

definition copy :: "string \<Rightarrow> string \<Rightarrow> world \<Rightarrow> (error + unit) \<times> world" where
  "copy src dst w =
     (case takeFault w of
        (True, w') \<Rightarrow> (Inl (IOFailure ''copy''), w')
      | (False, w') \<Rightarrow>
          (case files w' src of
             None \<Rightarrow> (Inl (IOFailure ''copy''), w')
           | Some content \<Rightarrow> (Inr (), w'\<lparr>files := (files w')(dst \<mapsto> content)\<rparr>)))"

definition rename :: "string \<Rightarrow> string \<Rightarrow> world \<Rightarrow> (error + unit) \<times> world" where
  "rename src dst w =
     (case takeFault w of
        (True, w') \<Rightarrow> (Inl (IOFailure ''rename''), w')
      | (False, w') \<Rightarrow>
          (case files w' src of
             None \<Rightarrow> (Inl (IOFailure ''rename''), w')
           | Some content \<Rightarrow>
               (Inr (), w'\<lparr>files := ((files w')(src := None))(dst \<mapsto> content)\<rparr>)))"

definition remove :: "string \<Rightarrow> world \<Rightarrow> (error + unit) \<times> world" where
  "remove p w =
     (case takeFault w of
        (True, w') \<Rightarrow> (Inl (IOFailure ''remove''), w')
      | (False, w') \<Rightarrow> (Inr (), w'\<lparr>files := (files w')(p := None)\<rparr>))"

text \<open>\<^verbatim>\<open>await a; b\<close>: the second step runs when the first has not thrown.\<close>

definition andThen ::
  "(world \<Rightarrow> (error + 'a) \<times> world) \<Rightarrow> ('a \<Rightarrow> world \<Rightarrow> (error + 'b) \<times> world)
     \<Rightarrow> world \<Rightarrow> (error + 'b) \<times> world" where
  "andThen m f w = (case m w of (Inl err, w') \<Rightarrow> (Inl err, w') | (Inr x, w') \<Rightarrow> f x w')"

text \<open>\<^verbatim>\<open>if (await fs.pathExists(p)) { await op }\<close>\<close>

definition whenExists ::
  "string \<Rightarrow> (world \<Rightarrow> (error + unit) \<times> world) \<Rightarrow> world \<Rightarrow> (error + unit) \<times> world" where
  "whenExists p op w = (if pathExists p w then op w else (Inr (), w))"

definition BACKUP_EXTENSION :: string where "BACKUP_EXTENSION = ''.backup''"
definition TEMP_EXTENSION :: string where "TEMP_EXTENSION = ''.tmp''"

text \<open>\<^verbatim>\<open>path.join(a, b)\<close> for a directory and a file name.\<close>

definition path_join :: "string \<Rightarrow> string \<Rightarrow> string" where
  "path_join a b = a @ ''/'' @ b"

section \<open>Atomic Persistence Layer\<close>

text \<open>The \<^verbatim>\<open>try\<close> block of \<^verbatim>\<open>writeReliverseConfig\<close>.\<close>

definition writeTry :: "env \<Rightarrow> string \<Rightarrow> jval \<Rightarrow> world \<Rightarrow> (error + unit) \<times> world" where
  "writeTry e configPath config w =
     (let backupPath = configPath @ BACKUP_EXTENSION;
          tempPath = configPath @ TEMP_EXTENSION
      in
        if \<not> Check (reliverseConfigSchema e) config then
          (Inl (ErrorMsg ''Invalid reliverse.jsonc config''), w)
        else
          (case JSON_stringify config of
             None \<Rightarrow> (Inl TypeError, w)
           | Some text \<Rightarrow>
               andThen (whenExists configPath (copy configPath backupPath)) (\<lambda>_.
               andThen (writeFile tempPath (injectSectionComments e text)) (\<lambda>_.
               andThen (rename tempPath configPath) (\<lambda>_.
               whenExists backupPath (remove backupPath)))) w))"

text \<open>The \<^verbatim>\<open>catch\<close> block: restore, remove the temporary file, throw the error again.\<close>

definition writeCatch :: "string \<Rightarrow> error \<Rightarrow> world \<Rightarrow> (error + unit) \<times> world" where
  "writeCatch configPath err w =
     (let backupPath = configPath @ BACKUP_EXTENSION;
          tempPath = configPath @ TEMP_EXTENSION
      in
        andThen (\<lambda>w. if pathExists backupPath w \<and> \<not> pathExists configPath w
                     then copy backupPath configPath w else (Inr (), w)) (\<lambda>_.
        andThen (whenExists tempPath (remove tempPath)) (\<lambda>_ w. (Inl err, w))) w)"

definition writeReliverseConfig ::
  "env \<Rightarrow> string \<Rightarrow> jval \<Rightarrow> world \<Rightarrow> (error + unit) \<times> world" where
  "writeReliverseConfig e configPath config w =
     (case writeTry e configPath config w of
        (Inl err, w') \<Rightarrow> writeCatch configPath err w'
      | (Inr u, w') \<Rightarrow> (Inr u, w'))"

section \<open>Config Reader\<close>

text \<open>
  \<^verbatim>\<open>parseReliverseFile\<close> returns \<^verbatim>\<open>null\<close>, or the parsed value with whether it is
  valid (\<^verbatim>\<open>errors\<close> is \<^verbatim>\<open>null\<close>); whatever is thrown inside is caught.
\<close>

definition parseReliverseFile :: "env \<Rightarrow> string \<Rightarrow> world \<Rightarrow> (jval \<times> bool) option \<times> world" where
  "parseReliverseFile e configPath w =
     (case readFile configPath w of
        (Inl err, w') \<Rightarrow> (None, w')
      | (Inr raw, w') \<Rightarrow>
          (let content = trim raw in
           if content = [] \<or> content = ''{}'' then (None, w')
           else
             (let parsed = parseJSONC e content in
              if \<not> typeofObject parsed then (None, w')
              else (Some (parsed, Check (reliverseConfigSchema e) parsed), w'))))"

definition readReliverseConfig ::
  "env \<Rightarrow> string \<Rightarrow> world \<Rightarrow> (error + jval option) \<times> world" where
  "readReliverseConfig e configPath w =
     (if \<not> pathExists configPath w then (Inr None, w)
      else
        (let backupPath = configPath @ BACKUP_EXTENSION in
         case parseReliverseFile e configPath w of
           (None, w1) \<Rightarrow> (Inr None, w1)
         | (Some (parsed, True), w1) \<Rightarrow> (Inr (Some parsed), w1)
         | (Some (parsed, False), w1) \<Rightarrow>
             (let merged = JObj (mergeWithDefaults e parsed) in
              if Check (reliverseConfigSchema e) merged then
                andThen (writeReliverseConfig e configPath merged)
                  (\<lambda>_ w. (Inr (Some merged), w)) w1
              else if pathExists backupPath w1 then
                (case parseReliverseFile e backupPath w1 of
                   (Some (backupParsed, True), w2) \<Rightarrow>
                     andThen (copy backupPath configPath)
                       (\<lambda>_ w. (Inr (Some backupParsed), w)) w2
                 | (_, w2) \<Rightarrow> (Inr None, w2))
              else (Inr None, w1))))"

text \<open>\<^verbatim>\<open>parseAndFixConfig\<close> catches whatever is thrown inside and then returns \<^verbatim>\<open>null\<close>.\<close>

definition parseAndFixConfig :: "env \<Rightarrow> string \<Rightarrow> world \<Rightarrow> jval option \<times> world" where
  "parseAndFixConfig e configPath w =
     (case readFile configPath w of
        (Inl err, w') \<Rightarrow> (None, w')
      | (Inr raw, w') \<Rightarrow>
          (let parsed = parseJSONC e raw in
           if \<not> typeofObject parsed then (None, w')
           else if Check (reliverseConfigSchema e) parsed then (Some parsed, w')
           else
             (case fixLineByLine parsed (JObj (DEFAULT_CONFIG e)) (reliverseConfigSchema e) of
                Inl err \<Rightarrow> (None, w')
              | Inr (fixedConfig, changedKeys) \<Rightarrow>
                  if Check (reliverseConfigSchema e) fixedConfig then
                    (case writeReliverseConfig e configPath fixedConfig w' of
                       (Inl err, w'') \<Rightarrow> (None, w'')
                     | (Inr u, w'') \<Rightarrow> (Some fixedConfig, w''))
                  else (None, w'))))"

text \<open>
  \<^verbatim>\<open>reReadReliverseConfig\<close>, with the working directory as a parameter: the read, and
  the line-by-line fix when the read gave \<^verbatim>\<open>null\<close>.
\<close>

definition reReadReliverseConfig ::
  "env \<Rightarrow> string \<Rightarrow> world \<Rightarrow> (error + jval option) \<times> world" where
  "reReadReliverseConfig e cwd w =
     (let configPath = path_join cwd (cliConfigJsonc e) in
      case readReliverseConfig e configPath w of
        (Inl err, w') \<Rightarrow> (Inl err, w')
      | (Inr (Some config), w') \<Rightarrow> (Inr (Some config), w')
      | (Inr None, w') \<Rightarrow>
          (case parseAndFixConfig e configPath w' of (config, w'') \<Rightarrow> (Inr config, w'')))"

section \<open>Update and migration\<close>

text \<open>The \<^verbatim>\<open>try\<close> block of \<^verbatim>\<open>updateReliverseConfig\<close>.\<close>

definition updateTry :: "env \<Rightarrow> string \<Rightarrow> obj \<Rightarrow> world \<Rightarrow> (error + bool) \<times> world" where
  "updateTry e configPath updates w =
     (let backupPath = configPath @ BACKUP_EXTENSION;
          tempPath = configPath @ TEMP_EXTENSION
      in
        andThen (\<lambda>w. if pathExists configPath w then
                       andThen (readFile configPath) (\<lambda>existingContent w.
                         (let parsed = parseJSONC e existingContent in
                          (Inr (if Check (reliverseConfigSchema e) parsed then parsed
                                else JObj []), w))) w
                     else (Inr (JObj []), w)) (\<lambda>existingConfig w.
          (let mergedConfig = JObj (deepMerge (ownEntries existingConfig) updates) in
           if \<not> Check (reliverseConfigSchema e) mergedConfig then (Inr False, w)
           else
             andThen (whenExists configPath (copy configPath backupPath)) (\<lambda>_.
             andThen (writeFile tempPath
                        (injectSectionComments e (serialize 0 mergedConfig))) (\<lambda>_.
             andThen (rename tempPath configPath) (\<lambda>_.
             andThen (whenExists backupPath (remove backupPath)) (\<lambda>_ w.
               (Inr True, w))))) w)) w)"

text \<open>The \<^verbatim>\<open>catch\<close> block: the restore has a \<^verbatim>\<open>try\<close> of its own, the removal has none.\<close>

definition updateCatch :: "string \<Rightarrow> world \<Rightarrow> (error + bool) \<times> world" where
  "updateCatch configPath w =
     (let backupPath = configPath @ BACKUP_EXTENSION;
          tempPath = configPath @ TEMP_EXTENSION;
          w1 = (if pathExists backupPath w \<and> \<not> pathExists configPath w
                then snd (copy backupPath configPath w) else w)
      in andThen (whenExists tempPath (remove tempPath)) (\<lambda>_ w. (Inr False, w)) w1)"

definition updateReliverseConfig ::
  "env \<Rightarrow> string \<Rightarrow> obj \<Rightarrow> world \<Rightarrow> (error + bool) \<times> world" where
  "updateReliverseConfig e projectPath updates w =
     (let configPath = path_join projectPath (cliConfigJsonc e) in
      case updateTry e configPath updates w of
        (Inl err, w') \<Rightarrow> updateCatch configPath w'
      | (Inr b, w') \<Rightarrow> (Inr b, w'))"

definition keysToMigrate :: "string list" where
  "keysToMigrate =
     [''projectDescription'', ''version'', ''projectLicense'', ''projectRepository'',
      ''projectCategory'', ''projectSubcategory'', ''projectFramework'', ''projectTemplate'',
      ''projectArchitecture'', ''deployBehavior'', ''depsBehavior'', ''gitBehavior'',
      ''i18nBehavior'', ''scriptsBehavior'', ''existingRepoBehavior'', ''repoPrivacy'',
      ''features'', ''preferredLibraries'', ''codeStyle'', ''monorepo'',
      ''ignoreDependencies'', ''customRules'', ''skipPromptsUseAutoBehavior'']"

text \<open>The loop over \<open>keysToMigrate\<close>, with \<open>validConfig\<close> as its state.\<close>

fun pickKeys :: "string list \<Rightarrow> jval \<Rightarrow> obj \<Rightarrow> obj" where
  "pickKeys [] tempConfig validConfig = validConfig"
| "pickKeys (key # others) tempConfig validConfig =
     pickKeys others tempConfig
       (if getProp tempConfig key \<noteq> JUndef
        then setProp key (getProp tempConfig key) validConfig else validConfig)"

text \<open>
  \<^verbatim>\<open>migrateReliverseConfig\<close> returns nothing and catches whatever is thrown inside: the
  result is the file system it leaves.
\<close>

definition migrateReliverseConfig :: "env \<Rightarrow> string \<Rightarrow> string \<Rightarrow> world \<Rightarrow> world" where
  "migrateReliverseConfig e externalReliverseFilePath projectPath w =
     snd (andThen (readFile externalReliverseFilePath) (\<lambda>content w.
            (let parsed = parseJSONC e content in
             if \<not> typeofObject parsed then
               (Inl (ErrorMsg ''Invalid JSONC format in reliverse-tmp.jsonc''), w)
             else
               andThen (updateReliverseConfig e projectPath (pickKeys keysToMigrate parsed []))
                 (\<lambda>success. remove externalReliverseFilePath) w)) w)"

text \<open>
  What one round of the loop of \<open>fixLineByLine\<close> does for the declared property \<open>p\<close>
  with schema \<open>s\<close>: the value \<open>v\<close> it stores in the result and the entries \<open>extra\<close>
  it appends to the changed keys. The branches are the branches of the loop body.
\<close>

definition fixStep :: "jval \<Rightarrow> jval \<Rightarrow> string \<Rightarrow> schema \<Rightarrow> jval \<Rightarrow> string list \<Rightarrow> bool" where
  "fixStep u d p s v extra =
     (if getProp u p = JUndef \<and> \<not> hasProp u p then v = getProp d p \<and> extra = []
      else if isRepoProp p \<and> isArray (getProp u p) then
        v = cleanRepos (getProp u p) \<and> extra = []
      else if \<not> Check s (getProp u p) then v = getProp d p \<and> extra = [p]
      else if typeIsObject s then
        (\<exists>nested. fixLineByLine (getProp u p) (getProp d p) s = Inr (v, nested)
                 \<and> extra = map (\<lambda>nc. p @ ''.'' @ nc) nested)
      else v = getProp u p \<and> extra = [])"

text \<open>
  A document is complete for a schema when it defines every property that an object
  node declares, at every nesting level that the repairer descends into.
\<close>

fun completeFor :: "schema \<Rightarrow> jval \<Rightarrow> bool" where
  "completeFor (TObject props required rejectUnknown) v =
     (case v of
        JObj kvs \<Rightarrow>
          list_all (\<lambda>p. fst p \<in> fst ` set kvs \<and> completeFor (snd p) (getProp v (fst p))) props
      | _ \<Rightarrow> False)"
| "completeFor s v = True"

text \<open>
  The object nodes of a schema (those the repairer descends into) declare each property
  name once, as the keys of an object are, and declare the two repository lists, where
  they declare them, as arrays of strings.
\<close>

fun wellFormed :: "schema \<Rightarrow> bool" where
  "wellFormed (TObject props required rejectUnknown) =
     (distinct (map fst props)
      \<and> list_all (\<lambda>p. (isRepoProp (fst p) \<longrightarrow> snd p = TArray TString) \<and> wellFormed (snd p)) props)"
| "wellFormed s = True"

text \<open>A declared property of a document that a repair pass leaves without a changed key.\<close>

definition stableProp :: "jval \<Rightarrow> jval \<Rightarrow> string \<Rightarrow> schema \<Rightarrow> bool" where
  "stableProp f d p s =
     (hasProp f p \<and>
      ((isRepoProp p \<and> isArray (getProp f p)) \<or>
       (Check s (getProp f p) \<and>
        (typeIsObject s \<longrightarrow>
           (\<exists>f'. fixLineByLine (getProp f p) (getProp d p) s = Inr (f', []))))))"

text \<open>
  A parsed document: what a JSON text denotes. No value is \<^verbatim>\<open>undefined\<close> and the keys
  of an object are distinct.
\<close>

fun isJson :: "jval \<Rightarrow> bool" where
  "isJson JUndef = False"
| "isJson (JArr xs) = list_all isJson xs"
| "isJson (JObj kvs) = (distinct (map fst kvs) \<and> list_all (\<lambda>kv. isJson (snd kv)) kvs)"
| "isJson v = True"

definition objectOrAbsent :: "jval \<Rightarrow> bool" where
  "objectOrAbsent v = (v = JUndef \<or> isPlainObject v)"

text \<open>
  The sections that \<open>mergeWithDefaults\<close> rebuilds are absent or objects, and
  \<^verbatim>\<open>ignoreDependencies\<close> is not \<^verbatim>\<open>null\<close>.
\<close>

definition sectionsAreObjects :: "jval \<Rightarrow> bool" where
  "sectionsAreObjects partial =
     (list_all (\<lambda>k. objectOrAbsent (getProp partial k))
        [''features'', ''codeStyle'', ''preferredLibraries'', ''monorepo'', ''customRules'']
      \<and> objectOrAbsent (optChain (getProp partial ''codeStyle'') ''modernize'')
      \<and> getProp partial ''ignoreDependencies'' \<noteq> JNull)"

text \<open>Example schemas and documents for the concrete cases below.\<close>

definition nestedRepoSchema :: schema where
  "nestedRepoSchema =
     TObject [(''repos'',
               TObject [(''customUserFocusedRepos'', TArray TNumber)]
                       [''customUserFocusedRepos''] True)]
             [''repos''] True"

definition sampleEnv :: env where
  "sampleEnv =
     \<lparr>RELIVERSE_SCHEMA_URL = ''https://reliverse.org/schema.json'',
      UNKNOWN_VALUE = ''unknown'',
      DEFAULT_DOMAIN = ''https://reliverse.org'',
      cliName = ''@reliverse/cli'',
      cliDomainDocs = ''https://docs.reliverse.org'',
      cliConfigJsonc = ''reliverse.jsonc'',
      isBunPM = False,
      runtimeName = ''node'',
      reliverseConfigSchema =
        TObject [(''projectName'', TString), (''features'', TUnknown)] [''projectName''] False,
      parseJSONC = strictJSONC\<rparr>"

definition samplePartial :: obj where
  "samplePartial =
     [(''features'', JObj [(''i18n'', JBool True)]),
      (''projectName'', JStr ''demo''),
      (''codeStyle'', JObj [(''lineWidth'', JNum 100),
                            (''modernize'', JObj [(''replaceFs'', JBool True)])]),
      (''ignoreDependencies'', JArr [JStr ''left-pad''])]"

definition sampleSchema :: schema where
  "sampleSchema =
     TObject [(''name'', TString),
              (''style'', TObject [(''width'', TNumber), (''quote'', TString)] [''width''] False),
              (''customUserFocusedRepos'', TArray TString)]
             [''name'', ''style''] True"

definition sampleDefault :: jval where
  "sampleDefault =
     JObj [(''name'', JStr ''unknown''),
           (''style'', JObj [(''width'', JNum 80), (''quote'', JStr ''double'')]),
           (''customUserFocusedRepos'', JArr [])]"

definition sampleDoc :: jval where
  "sampleDoc =
     JObj [(''style'', JObj [(''width'', JNum 100)]),
           (''name'', JNum 5),
           (''customUserFocusedRepos'', JArr [JStr ''github.com/a/b.git'']),
           (''extra'', JBool True)]"

definition sampleFixed :: jval where
  "sampleFixed =
     JObj [(''name'', JStr ''unknown''),
           (''style'', JObj [(''width'', JNum 100), (''quote'', JStr ''double'')]),
           (''customUserFocusedRepos'', JArr [JStr ''a/b''])]"

text \<open>The text that a write stores for a document: its serialization with the section comments.\<close>

definition annotated :: "env \<Rightarrow> jval \<Rightarrow> string" where
  "annotated e doc = injectSectionComments e (serialize 0 doc)"

text \<open>A text that \<open>parseReliverseFile\<close> goes on to validate: not empty, not \<^verbatim>\<open>{}\<close>, and parsed to an object.\<close>

definition readable :: "env \<Rightarrow> string \<Rightarrow> bool" where
  "readable e raw =
     (trim raw \<noteq> [] \<and> trim raw \<noteq> ''{}'' \<and> typeofObject (parseJSONC e (trim raw)))"

text \<open>
  The field-repair layer, as \<open>parseAndFixConfig\<close> runs it on the text of the primary
  file: the document it returns and the text of the primary file afterwards.
\<close>

definition repairLayer :: "env \<Rightarrow> string \<Rightarrow> jval option \<times> string option" where
  "repairLayer e raw =
     (let parsed = parseJSONC e raw in
      if \<not> typeofObject parsed then (None, Some raw)
      else if Check (reliverseConfigSchema e) parsed then (Some parsed, Some raw)
      else
        (case fixLineByLine parsed (JObj (DEFAULT_CONFIG e)) (reliverseConfigSchema e) of
           Inl err \<Rightarrow> (None, Some raw)
         | Inr (fixed, changed) \<Rightarrow>
             if Check (reliverseConfigSchema e) fixed
             then (Some fixed, Some (annotated e fixed))
             else (None, Some raw)))"

text \<open>The backup layer: the backup file parses to a valid document, which is restored.\<close>

definition backupLayer :: "env \<Rightarrow> string \<Rightarrow> string option \<Rightarrow> jval option \<times> string option" where
  "backupLayer e raw backup =
     (case backup of
        None \<Rightarrow> (None, Some raw)
      | Some braw \<Rightarrow>
          if readable e braw \<and> Check (reliverseConfigSchema e) (parseJSONC e (trim braw))
          then (Some (parseJSONC e (trim braw)), Some braw)
          else (None, Some raw))"

text \<open>
  The layers of \<open>readReliverseConfig\<close> in the order of the code: accept, merge with
  the defaults, restore the backup, give up. \<open>primary\<close> and \<open>backup\<close> are the texts
  of the two files, when they exist.
\<close>

definition readLayers ::
  "env \<Rightarrow> string option \<Rightarrow> string option \<Rightarrow> jval option \<times> string option" where
  "readLayers e primary backup =
     (case primary of
        None \<Rightarrow> (None, None)
      | Some raw \<Rightarrow>
          if \<not> readable e raw then (None, Some raw)
          else
            (let parsed = parseJSONC e (trim raw);
                 merged = JObj (mergeWithDefaults e parsed)
             in if Check (reliverseConfigSchema e) parsed then (Some parsed, Some raw)
                else if Check (reliverseConfigSchema e) merged
                then (Some merged, Some (annotated e merged))
                else backupLayer e raw backup))"

text \<open>The reader with the line-by-line fix behind it, as \<open>reReadReliverseConfig\<close> has it.\<close>

definition configReaderLayers ::
  "env \<Rightarrow> string option \<Rightarrow> string option \<Rightarrow> jval option \<times> string option" where
  "configReaderLayers e primary backup =
     (case readLayers e primary backup of
        (Some doc, content) \<Rightarrow> (Some doc, content)
      | (None, content) \<Rightarrow>
          (case primary of None \<Rightarrow> (None, None) | Some raw \<Rightarrow> repairLayer e raw))"

text \<open>
  The layers in the order of the spec (section 4.7): accept, merge with the defaults,
  field repair, restore the backup, give up.
\<close>

definition configReaderSpec :: "env \<Rightarrow> string option \<Rightarrow> string option \<Rightarrow> jval option" where
  "configReaderSpec e primary backup =
     (case primary of
        None \<Rightarrow> None
      | Some raw \<Rightarrow>
          if \<not> readable e raw then None
          else
            (let parsed = parseJSONC e (trim raw);
                 merged = JObj (mergeWithDefaults e parsed)
             in if Check (reliverseConfigSchema e) parsed then Some parsed
                else if Check (reliverseConfigSchema e) merged then Some merged
                else
                  (case fixLineByLine parsed (JObj (DEFAULT_CONFIG e)) (reliverseConfigSchema e) of
                     Inr (fixed, changed) \<Rightarrow>
                       if Check (reliverseConfigSchema e) fixed then Some fixed
                       else fst (backupLayer e raw backup)
                   | Inl err \<Rightarrow> fst (backupLayer e raw backup))))"

text \<open>No file operation throws from here on.\<close>

definition noMoreFaults :: "world \<Rightarrow> bool" where
  "noMoreFaults w = list_all (\<lambda>f. \<not> f) (faults w)"





text \<open>Example texts and file systems for the reader, the writer and the migration.\<close>

definition versionText :: string where
  "versionText = ''{'' @ [dq] @ ''version'' @ [dq] @ '': 5}''"

definition licenseText :: string where
  "licenseText = ''{'' @ [dq] @ ''projectLicense'' @ [dq] @ '': '' @ [dq] @ ''MIT'' @ [dq] @ '', '' @ [dq] @ ''unknownField'' @ [dq] @ '': 1}''"

definition demoText :: string where
  "demoText = ''{'' @ [dq] @ ''projectName'' @ [dq] @ '': '' @ [dq] @ ''demo'' @ [dq] @ ''}''"

definition migrateFailsWorld :: world where
  "migrateFailsWorld = \<lparr>files = [''ext.jsonc'' \<mapsto> versionText], faults = []\<rparr>"

definition migrateWorld :: world where
  "migrateWorld = \<lparr>files = [''ext.jsonc'' \<mapsto> licenseText, ''proj/reliverse.jsonc'' \<mapsto> demoText], faults = []\<rparr>"

definition badNameText :: string where
  "badNameText = ''{'' @ [dq] @ ''projectName'' @ [dq] @ '': 5}''"

definition oldNameText :: string where
  "oldNameText = ''{'' @ [dq] @ ''projectName'' @ [dq] @ '': '' @ [dq] @ ''old'' @ [dq] @ ''}''"

definition backupFirstWorld :: world where
  "backupFirstWorld =
     \<lparr>files = [''proj/reliverse.jsonc'' \<mapsto> badNameText,
               ''proj/reliverse.jsonc.backup'' \<mapsto> oldNameText],
      faults = []\<rparr>"



section \<open>Properties: objects\<close>

lemma map_of_setProp: "map_of (setProp k v r) = (map_of r)(k \<mapsto> v)"
  by (simp add: setProp_def update_conv')

lemma keys_setProp: "fst ` set (setProp k v r) = insert k (fst ` set r)"
  by (induction r) (auto simp: setProp_def)

lemma getProp_JObj:
  "getProp (JObj kvs) k = (case map_of kvs k of Some x \<Rightarrow> x | None \<Rightarrow> JUndef)"
  by (simp add: getProp_def split: option.splits)

section \<open>Properties: Deep Merger\<close>

lemma map_of_mergeKeys_notin:
  "k \<notin> fst ` set source \<Longrightarrow> map_of (mergeKeys target source result) k = map_of result k"
  by (induction source arbitrary: result)
     (auto simp: map_of_setProp split: jval.splits)

lemma map_of_mergeKeys_in:
  "distinct (map fst source) \<Longrightarrow> map_of source k = Some sv \<Longrightarrow>
   map_of (mergeKeys target source result) k =
     (if sv = JUndef then map_of result k
      else Some (case sv of
             JObj s \<Rightarrow> (case getProp (JObj target) k of JObj t \<Rightarrow> JObj (deepMerge t s) | _ \<Rightarrow> sv)
           | _ \<Rightarrow> sv))"
proof (induction source arbitrary: result)
  case Nil
  then show ?case by simp
next
  case (Cons kv rest)
  obtain key v where kv: "kv = (key, v)" by (cases kv)
  show ?case
  proof (cases "key = k")
    case True
    with Cons.prems kv have sv: "v = sv" and notin: "k \<notin> fst ` set rest" by auto
    show ?thesis
      using True sv notin kv
      by (simp add: map_of_mergeKeys_notin map_of_setProp split: jval.splits)
  next
    case False
    with Cons.prems kv have "map_of rest k = Some sv" "distinct (map fst rest)" by auto
    from Cons.IH[OF this(2) this(1)] False kv show ?thesis
      by (simp add: map_of_setProp split: jval.splits)
  qed
qed

lemma getProp_deepMerge_absent:
  assumes "map_of override k = None"
  shows "getProp (JObj (deepMerge base override)) k = getProp (JObj base) k"
proof -
  from assms have "k \<notin> fst ` set override" by (simp add: map_of_eq_None_iff)
  then show ?thesis by (simp add: getProp_JObj map_of_mergeKeys_notin)
qed

lemma getProp_deepMerge_present:
  assumes "distinct (map fst override)" and "map_of override k = Some sv"
  shows "getProp (JObj (deepMerge base override)) k =
     (if sv = JUndef then getProp (JObj base) k
      else (case sv of
             JObj s \<Rightarrow> (case getProp (JObj base) k of JObj t \<Rightarrow> JObj (deepMerge t s) | _ \<Rightarrow> sv)
           | _ \<Rightarrow> sv))"
  using map_of_mergeKeys_in[OF assms, of base base]
  by (simp add: getProp_JObj)

text \<open>
  Claim C4. For every pair of objects \<open>base\<close> and \<open>override\<close> (an object has distinct
  keys) and every key \<open>k\<close>: a key that \<open>override\<close> does not have, or has with the value
  \<^verbatim>\<open>undefined\<close>, keeps the value of \<open>base\<close>; where both values are objects that are
  neither \<^verbatim>\<open>null\<close> nor arrays the result is the merge of the two; in every other case
  the value of \<open>override\<close> replaces that of \<open>base\<close> (an array as a whole). And
  merging \<^verbatim>\<open>{a: {b: 5}}\<close> into \<^verbatim>\<open>{a: {b: 1, c: 2}, d: 3}\<close> gives
  \<^verbatim>\<open>{a: {b: 5, c: 2}, d: 3}\<close>.
\<close>

theorem deepMerge_keywise:
  assumes "distinct (map fst override)"
  shows "(map_of override k = None \<or> map_of override k = Some JUndef
            \<longrightarrow> getProp (JObj (deepMerge base override)) k = getProp (JObj base) k)
       \<and> (\<forall>s t. map_of override k = Some (JObj s) \<and> getProp (JObj base) k = JObj t
            \<longrightarrow> getProp (JObj (deepMerge base override)) k = JObj (deepMerge t s))
       \<and> (\<forall>v. map_of override k = Some v \<and> v \<noteq> JUndef
              \<and> \<not> (isPlainObject v \<and> isPlainObject (getProp (JObj base) k))
            \<longrightarrow> getProp (JObj (deepMerge base override)) k = v)
       \<and> deepMerge [(''a'', JObj [(''b'', JNum 1), (''c'', JNum 2)]), (''d'', JNum 3)]
                   [(''a'', JObj [(''b'', JNum 5)])]
           = [(''a'', JObj [(''b'', JNum 5), (''c'', JNum 2)]), (''d'', JNum 3)]"
proof (intro conjI allI impI)
  assume "map_of override k = None \<or> map_of override k = Some JUndef"
  then show "getProp (JObj (deepMerge base override)) k = getProp (JObj base) k"
    using getProp_deepMerge_absent[of override k base]
      getProp_deepMerge_present[OF assms, of k JUndef base] by auto
next
  fix s t
  assume "map_of override k = Some (JObj s) \<and> getProp (JObj base) k = JObj t"
  then show "getProp (JObj (deepMerge base override)) k = JObj (deepMerge t s)"
    using getProp_deepMerge_present[OF assms, of k "JObj s" base] by simp
next
  fix v
  assume "map_of override k = Some v \<and> v \<noteq> JUndef
            \<and> \<not> (isPlainObject v \<and> isPlainObject (getProp (JObj base) k))"
  then show "getProp (JObj (deepMerge base override)) k = v"
    using getProp_deepMerge_present[OF assms, of k v base]
    by (auto split: jval.splits)
next
  show "deepMerge [(''a'', JObj [(''b'', JNum 1), (''c'', JNum 2)]), (''d'', JNum 3)]
                  [(''a'', JObj [(''b'', JNum 5)])]
          = [(''a'', JObj [(''b'', JNum 5), (''c'', JNum 2)]), (''d'', JNum 3)]"
    by (simp add: getProp_def setProp_def)
qed

theorem deepMerge_keywise_witness:
  "distinct (map fst [(''tags'', JArr [JStr ''x'']), (''gone'', JUndef)])
   \<and> getProp (JObj (deepMerge [(''tags'', JArr [JStr ''a'', JStr ''b'']), (''gone'', JNum 1)]
                              [(''tags'', JArr [JStr ''x'']), (''gone'', JUndef)])) ''tags''
       = JArr [JStr ''x'']
   \<and> getProp (JObj (deepMerge [(''tags'', JArr [JStr ''a'', JStr ''b'']), (''gone'', JNum 1)]
                              [(''tags'', JArr [JStr ''x'']), (''gone'', JUndef)])) ''gone''
       = JNum 1"
  using deepMerge_keywise[of "[(''tags'', JArr [JStr ''x'']), (''gone'', JUndef)]" "''tags''"
          "[(''tags'', JArr [JStr ''a'', JStr ''b'']), (''gone'', JNum 1)]"]
        deepMerge_keywise[of "[(''tags'', JArr [JStr ''x'']), (''gone'', JUndef)]" "''gone''"
          "[(''tags'', JArr [JStr ''a'', JStr ''b'']), (''gone'', JNum 1)]"]
  by (simp add: getProp_JObj)

section \<open>Properties: Line-by-Line Repairer\<close>

lemma Check_single: "Check (createSinglePropertySchema p s) (JObj [(p, v)]) = Check s v"
  by (simp add: createSinglePropertySchema_def getProp_def)

lemma fixSingleProperty_eq:
  "fixSingleProperty s p uv dv = (if Check s uv then uv else dv)"
  by (simp add: fixSingleProperty_def Check_single)



lemma fixProperties_step:
  assumes "fixProperties u d ((p, s) # rest) (r, ck) = Inr out"
  shows "\<exists>v extra. fixProperties u d rest (setProp p v r, ck @ extra) = Inr out
                    \<and> fixStep u d p s v extra"
proof -
  from assms have nn: "\<not> nullish d" by (auto split: if_splits)
  show ?thesis
  proof (cases "getProp u p = JUndef \<and> \<not> hasProp u p")
    case True
    with assms nn show ?thesis
      by (auto simp: Let_def fixStep_def intro!: exI[of _ "getProp d p"] exI[of _ "[]"])
  next
    case F1: False
    show ?thesis
    proof (cases "isRepoProp p \<and> isArray (getProp u p)")
      case True
      with assms nn F1 show ?thesis
        by (auto simp: Let_def fixStep_def)
    next
      case F2: False
      show ?thesis
      proof (cases "Check s (getProp u p)")
        case False
        with assms nn F1 F2 show ?thesis
          by (auto simp: Let_def Check_single fixStep_def)
      next
        case T3: True
        show ?thesis
        proof (cases "typeIsObject s")
          case True
          with assms nn F1 F2 T3 show ?thesis
            by (auto simp: Let_def Check_single fixStep_def split: sum.splits)
        next
          case False
          with assms nn F1 F2 T3 show ?thesis
            by (auto simp: Let_def Check_single fixSingleProperty_eq fixStep_def)
        qed
      qed
    qed
  qed
qed

lemma fixProperties_untouched:
  "p \<notin> fst ` set props \<Longrightarrow> fixProperties u d props (r, ck) = Inr (r', ck') \<Longrightarrow>
   map_of r' p = map_of r p"
proof (induction props arbitrary: r ck)
  case Nil
  then show ?case by simp
next
  case (Cons qs rest)
  obtain q s where qs: "qs = (q, s)" by (cases qs)
  from Cons.prems qs have ne: "q \<noteq> p" and notin: "p \<notin> fst ` set rest" by auto
  from fixProperties_step[of u d q s rest r ck "(r', ck')"] Cons.prems(2) qs
  obtain v extra where "fixProperties u d rest (setProp q v r, ck @ extra) = Inr (r', ck')"
    by auto
  from Cons.IH[OF notin this] ne show ?case by (simp add: map_of_setProp)
qed

lemma fixProperties_changed_mono:
  "fixProperties u d props (r, ck) = Inr (r', ck') \<Longrightarrow> set ck \<subseteq> set ck'"
proof (induction props arbitrary: r ck)
  case Nil
  then show ?case by simp
next
  case (Cons qs rest)
  obtain q s where qs: "qs = (q, s)" by (cases qs)
  from fixProperties_step[of u d q s rest r ck "(r', ck')"] Cons.prems qs
  obtain v extra where "fixProperties u d rest (setProp q v r, ck @ extra) = Inr (r', ck')"
    by auto
  from Cons.IH[OF this] show ?case by simp
qed

lemma fixProperties_value:
  "distinct (map fst props) \<Longrightarrow> (p, s) \<in> set props \<Longrightarrow>
   fixProperties u d props (r, ck) = Inr (r', ck') \<Longrightarrow>
   \<exists>v extra. map_of r' p = Some v \<and> fixStep u d p s v extra \<and> set extra \<subseteq> set ck'"
proof (induction props arbitrary: r ck)
  case Nil
  then show ?case by simp
next
  case (Cons qs rest)
  obtain q s' where qs: "qs = (q, s')" by (cases qs)
  from fixProperties_step[of u d q s' rest r ck "(r', ck')"] Cons.prems(3) qs
  obtain v extra where rest: "fixProperties u d rest (setProp q v r, ck @ extra) = Inr (r', ck')"
    and step: "fixStep u d q s' v extra"
    by auto
  show ?case
  proof (cases "(p, s) = (q, s')")
    case True
    with Cons.prems(1) qs have "p \<notin> fst ` set rest" by auto
    from fixProperties_untouched[OF this rest] True
    have "map_of r' p = Some v" by (simp add: map_of_setProp)
    moreover from fixProperties_changed_mono[OF rest] have "set extra \<subseteq> set ck'" by simp
    ultimately show ?thesis using step True by auto
  next
    case False
    with Cons.prems(2) qs have "(p, s) \<in> set rest" by auto
    moreover from Cons.prems(1) have "distinct (map fst rest)" by simp
    ultimately show ?thesis using Cons.IH rest by blast
  qed
qed

lemma fixProperties_changed:
  "fixProperties u d props (r, ck) = Inr (r', ck') \<Longrightarrow> x \<in> set ck' \<Longrightarrow>
   x \<in> set ck
   \<or> (x \<in> fst ` set props \<and> \<not> (isRepoProp x \<and> isArray (getProp u x)))
   \<or> (\<exists>q nc. x = q @ ''.'' @ nc)"
proof (induction props arbitrary: r ck)
  case Nil
  then show ?case by simp
next
  case (Cons qs rest)
  obtain q s where qs: "qs = (q, s)" by (cases qs)
  from fixProperties_step[of u d q s rest r ck "(r', ck')"] Cons.prems(1) qs
  obtain v extra where rest: "fixProperties u d rest (setProp q v r, ck @ extra) = Inr (r', ck')"
    and step: "fixStep u d q s v extra"
    by auto
  from Cons.IH[OF rest Cons.prems(2)]
  consider "x \<in> set ck" | "x \<in> set extra"
    | "x \<in> fst ` set rest \<and> \<not> (isRepoProp x \<and> isArray (getProp u x))"
    | "\<exists>q nc. x = q @ ''.'' @ nc" by auto
  then show ?case
  proof cases
    case 2
    with step
    have "(x = q \<and> \<not> (isRepoProp x \<and> isArray (getProp u x))) \<or> (\<exists>nc. x = q @ ''.'' @ nc)"
      by (auto simp: fixStep_def split: if_splits)
    then show ?thesis using qs by auto
  qed (use qs in auto)
qed

lemma repo_no_dot: "isRepoProp p \<Longrightarrow> p \<noteq> q @ ''.'' @ nc"
proof
  assume a: "isRepoProp p" "p = q @ ''.'' @ nc"
  then have "CHR ''.'' \<in> set p" by simp
  with a(1) show False by (auto simp: isRepoProp_def)
qed

lemma fixLineByLine_object:
  assumes "typeofObject u" and "fixLineByLine u d (TObject props req rej) = Inr (fixed, changed)"
  shows "\<exists>r. fixed = JObj r
           \<and> fixProperties u d props (ownEntries (coalesce d (JObj [])), []) = Inr (r, changed)"
  using assms by (auto split: sum.splits)

text \<open>
  Claim C10. For a declared property named \<^verbatim>\<open>customUserFocusedRepos\<close> or
  \<^verbatim>\<open>customDevsFocusedRepos\<close> whose candidate value is an array, whatever the schema
  \<open>sub\<close> of the property and whatever the elements are: the repaired document holds
  the array of the elements, each converted to a string and passed through
  \<open>cleanGitHubUrl\<close>, and the property is not among the changed keys. The cleaning
  removes the prefix \<^verbatim>\<open>git+\<close>, a known host prefix and the suffix \<^verbatim>\<open>.git\<close>.
\<close>

theorem fixLineByLine_repo_arrays:
  assumes "p = ''customUserFocusedRepos'' \<or> p = ''customDevsFocusedRepos''"
    and "distinct (map fst props)" and "(p, sub) \<in> set props"
    and "typeofObject u" and "getProp u p = JArr xs"
    and "fixLineByLine u d (TObject props req rej) = Inr (fixed, changed)"
  shows "getProp fixed p = JArr (map (\<lambda>url. JStr (cleanGitHubUrl (String url))) xs)
       \<and> p \<notin> set changed
       \<and> cleanGitHubUrl ''git+https://github.com/user/repo.git'' = ''user/repo''"
proof -
  from assms(1) have repo: "isRepoProp p" by (simp add: isRepoProp_def)
  from fixLineByLine_object[OF assms(4) assms(6)] obtain r where
    fixed: "fixed = JObj r" and
    loop: "fixProperties u d props (ownEntries (coalesce d (JObj [])), []) = Inr (r, changed)"
    by auto
  from fixProperties_value[OF assms(2) assms(3) loop] obtain v extra where
    v: "map_of r p = Some v" and step: "fixStep u d p sub v extra" by auto
  from step repo assms(5) have "v = JArr (map (\<lambda>url. JStr (cleanGitHubUrl (String url))) xs)"
    by (simp add: fixStep_def)
  with v fixed have 1: "getProp fixed p = JArr (map (\<lambda>url. JStr (cleanGitHubUrl (String url))) xs)"
    by (simp add: getProp_JObj)
  have 2: "p \<notin> set changed"
  proof
    assume "p \<in> set changed"
    from fixProperties_changed[OF loop this] repo assms(5) repo_no_dot[OF repo]
    show False by auto
  qed
  have 3: "cleanGitHubUrl ''git+https://github.com/user/repo.git'' = ''user/repo''"
    by code_simp
  from 1 2 3 show ?thesis by simp
qed

lemma repo_example:
  "fixLineByLine
     (JObj [(''customUserFocusedRepos'', JArr [JStr '' https://www.gitlab.com/a/b.git'', JNum 12])])
     (JObj [(''customUserFocusedRepos'', JArr [])])
     (TObject [(''customUserFocusedRepos'', TArray TNumber)] [''customUserFocusedRepos''] True)
   = Inr (JObj [(''customUserFocusedRepos'', JArr [JStr ''a/b'', JStr ''12''])], [])"
  by code_simp

theorem fixLineByLine_repo_arrays_witness:
  "getProp (JObj [(''customUserFocusedRepos'', JArr [JStr ''a/b'', JStr ''12''])])
       ''customUserFocusedRepos''
     = JArr (map (\<lambda>url. JStr (cleanGitHubUrl (String url)))
              [JStr '' https://www.gitlab.com/a/b.git'', JNum 12])
   \<and> ''customUserFocusedRepos'' \<notin> set ([] :: string list)
   \<and> \<not> Check (TArray TNumber) (JArr [JStr '' https://www.gitlab.com/a/b.git'', JNum 12])"
proof -
  have "getProp (JObj [(''customUserFocusedRepos'', JArr [JStr ''a/b'', JStr ''12''])])
       ''customUserFocusedRepos''
     = JArr (map (\<lambda>url. JStr (cleanGitHubUrl (String url)))
              [JStr '' https://www.gitlab.com/a/b.git'', JNum 12])"
    using fixLineByLine_repo_arrays[OF _ _ _ _ _ repo_example,
        of "''customUserFocusedRepos''" "TArray TNumber"
           "[JStr '' https://www.gitlab.com/a/b.git'', JNum 12]"]
    by (simp add: typeofObject_def getProp_JObj)
  then show ?thesis by simp
qed

text \<open>
  Claim C6, as the spec states it, fails: an array with one invalid element is not
  filtered. For the schema \<^verbatim>\<open>{tags: string[]}\<close>, the candidate
  \<^verbatim>\<open>{tags: ["a", 1]}\<close> and the default \<^verbatim>\<open>{tags: ["x"]}\<close> the repaired field is the
  default \<^verbatim>\<open>["x"]\<close>, not the array \<^verbatim>\<open>["a"]\<close> of the valid elements.
\<close>

theorem fixLineByLine_array_counterexample:
  "fixLineByLine (JObj [(''tags'', JArr [JStr ''a'', JNum 1])])
                 (JObj [(''tags'', JArr [JStr ''x''])])
                 (TObject [(''tags'', TArray TString)] [''tags''] True)
     = Inr (JObj [(''tags'', JArr [JStr ''x''])], [''tags''])
   \<and> filter (Check TString) [JStr ''a'', JNum 1] = [JStr ''a'']
   \<and> getProp (JObj [(''tags'', JArr [JStr ''x''])]) ''tags''
       \<noteq> JArr (filter (Check TString) [JStr ''a'', JNum 1])"
  by code_simp

text \<open>
  Claim C6, amended. A declared array-valued field (other than the two repository
  lists) is validated as a whole: when every element satisfies the element schema the
  candidate's array is kept as it is; otherwise the whole field is replaced by the
  default's value for it and the field is recorded in the changed keys. No element is
  dropped on its own.
\<close>

theorem fixLineByLine_array_whole:
  assumes "distinct (map fst props)" and "(p, TArray e) \<in> set props"
    and "\<not> isRepoProp p"
    and "typeofObject u" and "getProp u p = JArr xs"
    and "fixLineByLine u d (TObject props req rej) = Inr (fixed, changed)"
  shows "getProp fixed p = (if list_all (Check e) xs then JArr xs else getProp d p)
       \<and> (\<not> list_all (Check e) xs \<longrightarrow> p \<in> set changed)"
proof -
  from fixLineByLine_object[OF assms(4) assms(6)] obtain r where
    fixed: "fixed = JObj r" and
    loop: "fixProperties u d props (ownEntries (coalesce d (JObj [])), []) = Inr (r, changed)"
    by auto
  from fixProperties_value[OF assms(1) assms(2) loop] obtain v extra where
    v: "map_of r p = Some v" and step: "fixStep u d p (TArray e) v extra"
    and extra: "set extra \<subseteq> set changed" by auto
  from step assms(3) assms(5)
  have "v = (if list_all (Check e) xs then JArr xs else getProp d p)"
    and "\<not> list_all (Check e) xs \<longrightarrow> extra = [p]"
    by (auto simp: fixStep_def split: if_splits)
  with v fixed extra show ?thesis by (auto simp: getProp_JObj)
qed

lemma array_example:
  "fixLineByLine (JObj [(''tags'', JArr [JStr ''a'', JNum 1]), (''more'', JArr [JStr ''b''])])
                 (JObj [(''tags'', JArr [JStr ''x'']), (''more'', JArr [])])
                 (TObject [(''tags'', TArray TString), (''more'', TArray TString)] [] True)
     = Inr (JObj [(''tags'', JArr [JStr ''x'']), (''more'', JArr [JStr ''b''])], [''tags''])"
  by code_simp

theorem fixLineByLine_array_whole_witness:
  "getProp (JObj [(''tags'', JArr [JStr ''x'']), (''more'', JArr [JStr ''b''])]) ''tags''
     = JArr [JStr ''x'']
   \<and> ''tags'' \<in> set [''tags'']
   \<and> getProp (JObj [(''tags'', JArr [JStr ''x'']), (''more'', JArr [JStr ''b''])]) ''more''
     = JArr [JStr ''b'']"
  using fixLineByLine_array_whole[OF _ _ _ _ _ array_example, of "''tags''" TString
          "[JStr ''a'', JNum 1]"]
        fixLineByLine_array_whole[OF _ _ _ _ _ array_example, of "''more''" TString
          "[JStr ''b'']"]
  by (simp add: typeofObject_def getProp_JObj isRepoProp_def)

section \<open>Properties: idempotence of the repair\<close>

lemma size_prop: "(p, s) \<in> set props \<Longrightarrow> size s < size (TObject props req rej)"
  by (induction props) auto

lemma keys_fixProperties:
  "fixProperties u d props (r, ck) = Inr (r', ck') \<Longrightarrow>
   fst ` set r' = fst ` set r \<union> fst ` set props"
proof (induction props arbitrary: r ck)
  case Nil
  then show ?case by simp
next
  case (Cons qs rest)
  obtain q s where qs: "qs = (q, s)" by (cases qs)
  from fixProperties_step[of u d q s rest r ck "(r', ck')"] Cons.prems qs
  obtain v extra where "fixProperties u d rest (setProp q v r, ck @ extra) = Inr (r', ck')"
    by auto
  from Cons.IH[OF this] qs show ?case by (auto simp: keys_setProp)
qed

lemma Check_prop:
  assumes "Check (TObject props req rej) (JObj kvs)" "(p, s) \<in> set props" "p \<in> fst ` set kvs"
  shows "Check s (getProp (JObj kvs) p)"
proof -
  from assms(1)
  have "\<forall>q\<in>set props. fst q \<in> fst ` set kvs \<longrightarrow> Check (snd q) (getProp (JObj kvs) (fst q))"
    by (simp add: list_all_iff)
  from bspec[OF this assms(2)] assms(3) show ?thesis by simp
qed

lemma complete_prop:
  assumes "completeFor (TObject props req rej) d" "(p, s) \<in> set props"
  shows "\<exists>kvs. d = JObj kvs \<and> p \<in> fst ` set kvs \<and> completeFor s (getProp d p)"
proof -
  from assms(1) obtain kvs where d: "d = JObj kvs" by (cases d) auto
  with assms(1)
  have "\<forall>q\<in>set props. fst q \<in> fst ` set kvs \<and> completeFor (snd q) (getProp d (fst q))"
    by (simp add: list_all_iff)
  from bspec[OF this assms(2)] d show ?thesis by simp
qed

lemma wellFormed_prop:
  assumes "wellFormed (TObject props req rej)" "(p, s) \<in> set props"
  shows "wellFormed s" "isRepoProp p \<Longrightarrow> s = TArray TString"
  using assms by (auto simp: list_all_iff)

lemma complete_not_object: "\<not> typeIsObject s \<Longrightarrow> completeFor s v"
  by (cases s) auto

text \<open>The loop returns when the default can be read and every nested repair returns.\<close>

lemma fixProperties_total:
  assumes "\<not> nullish d"
    and "\<And>p s. (p, s) \<in> set props \<Longrightarrow>
           \<exists>f ck. fixLineByLine (getProp u p) (getProp d p) s = Inr (f, ck)"
  shows "\<exists>out. fixProperties u d props (r, ck) = Inr out"
  using assms(2)
proof (induction props arbitrary: r ck)
  case Nil
  then show ?case by simp
next
  case (Cons qs rest)
  obtain q s where qs: "qs = (q, s)" by (cases qs)
  from Cons.prems[of q s] qs obtain f nested where
    n: "fixLineByLine (getProp u q) (getProp d q) s = Inr (f, nested)" by auto
  have rest: "\<And>r ck. \<exists>out. fixProperties u d rest (r, ck) = Inr out"
    using Cons.IH Cons.prems by simp
  show ?case unfolding qs
    using assms(1) n rest by (simp add: Let_def)
qed

text \<open>
  With a complete, schema-valid default the repair returns, and what it returns is again
  complete and schema-valid.
\<close>

lemma repair_valid:
  "wellFormed s \<Longrightarrow> Check s d \<Longrightarrow> completeFor s d \<Longrightarrow>
   \<exists>f ck. fixLineByLine u d s = Inr (f, ck) \<and> Check s f \<and> completeFor s f"
proof (induction s arbitrary: u d rule: measure_induct_rule[of size])
  case (less s)
  show ?case
  proof (cases "isObjectSchema s \<and> typeofObject u")
    case False
    then have "fixLineByLine u d s =
        Inr (if Check s u then (u, []) else (d, [''<entire_object>'']))"
      by (cases s) (auto simp: Let_def entireObject_def)
    moreover have "Check s u \<Longrightarrow> completeFor s u"
      using False by (cases s; cases u) (auto simp: typeofObject_def)
    ultimately show ?thesis using less.prems by auto
  next
    case True
    then obtain props req rej where s: "s = TObject props req rej" by (cases s) auto
    from less.prems(2) s obtain dkvs where d: "d = JObj dkvs" by (cases d) auto
    then have nn: "\<not> nullish d" by (simp add: nullish_def)
    have nested: "\<exists>f ck. fixLineByLine (getProp u p) (getProp d p) sub = Inr (f, ck)
                    \<and> Check sub f \<and> completeFor sub f"
      if "(p, sub) \<in> set props" for p sub
    proof -
      from complete_prop[OF less.prems(3)[unfolded s] that] d
      have pin: "p \<in> fst ` set dkvs" and c: "completeFor sub (getProp d p)" by auto
      from Check_prop[OF less.prems(2)[unfolded s d] that pin] d
      have v: "Check sub (getProp d p)" by simp
      from less.IH[OF _ wellFormed_prop(1)[OF less.prems(1)[unfolded s] that] v c]
        size_prop[OF that] s
      show ?thesis by auto
    qed
    from fixProperties_total[OF nn, of props u "ownEntries (coalesce d (JObj []))" "[]"] nested
    obtain r ck where loop:
      "fixProperties u d props (ownEntries (coalesce d (JObj [])), []) = Inr (r, ck)"
      by fastforce
    have res: "fixLineByLine u d s = Inr (JObj r, ck)"
      using True loop s by simp
    have start: "ownEntries (coalesce d (JObj [])) = dkvs"
      using d by (simp add: coalesce_def nullish_def)
    have keys: "fst ` set r = fst ` set dkvs \<union> fst ` set props"
      using keys_fixProperties[OF loop] start by simp
    have dist: "distinct (map fst props)" using less.prems(1) s by simp
    have each: "p \<in> fst ` set r \<and> Check sub (getProp (JObj r) p)
                  \<and> completeFor sub (getProp (JObj r) p)"
      if "(p, sub) \<in> set props" for p sub
    proof -
      from fixProperties_value[OF dist that loop] obtain v extra where
        v: "map_of r p = Some v" and step: "fixStep u d p sub v extra" by auto
      from complete_prop[OF less.prems(3)[unfolded s] that] d
      have pin: "p \<in> fst ` set dkvs" and c: "completeFor sub (getProp d p)" by auto
      from Check_prop[OF less.prems(2)[unfolded s d] that pin] d
      have dv: "Check sub (getProp d p)" by simp
      have "Check sub v \<and> completeFor sub v"
      proof (cases "getProp u p = JUndef \<and> \<not> hasProp u p")
        case True
        with step dv c show ?thesis by (simp add: fixStep_def)
      next
        case F1: False
        show ?thesis
        proof (cases "isRepoProp p \<and> isArray (getProp u p)")
          case True
          then obtain xs where "getProp u p = JArr xs" by (cases "getProp u p") auto
          with step True F1 wellFormed_prop(2)[OF less.prems(1)[unfolded s] that]
          show ?thesis by (simp add: fixStep_def list_all_iff)
        next
          case F2: False
          show ?thesis
          proof (cases "Check sub (getProp u p)")
            case False
            with step F1 F2 dv c show ?thesis by (simp add: fixStep_def)
          next
            case T3: True
            show ?thesis
            proof (cases "typeIsObject sub")
              case True
              with step F1 F2 T3 obtain nestedc where
                "fixLineByLine (getProp u p) (getProp d p) sub = Inr (v, nestedc)"
                by (auto simp: fixStep_def)
              with nested[OF that] show ?thesis by auto
            next
              case False
              with step F1 F2 T3 have "v = getProp u p" by (simp add: fixStep_def)
              with T3 complete_not_object[OF False] show ?thesis by simp
            qed
          qed
        qed
      qed
      with v show ?thesis
        by (auto simp: getProp_JObj dest: map_of_SomeD intro: image_eqI[where x="(p, v)"])
    qed
    have reqs: "list_all (\<lambda>k. k \<in> fst ` set r) req"
      using less.prems(2) s d keys by (auto simp: list_all_iff)
    have unk: "rej \<longrightarrow> list_all (\<lambda>kv. fst kv \<in> fst ` set props) r"
    proof
      assume rej
      with less.prems(2) s d have "fst ` set dkvs \<subseteq> fst ` set props"
        by (auto simp: list_all_iff)
      with keys have "fst ` set r \<subseteq> fst ` set props" by simp
      then show "list_all (\<lambda>kv. fst kv \<in> fst ` set props) r"
        by (simp add: list_all_iff image_subset_iff)
    qed
    have "Check s (JObj r)"
      using s reqs unk each by (auto simp: list_all_iff)
    moreover have "completeFor s (JObj r)"
      using s each by (auto simp: list_all_iff)
    ultimately show ?thesis using res by simp
  qed
qed

lemma fixProperties_stable:
  "\<not> nullish d \<Longrightarrow> list_all (\<lambda>ps. stableProp f d (fst ps) (snd ps)) props \<Longrightarrow>
   \<exists>r'. fixProperties f d props (r, ck) = Inr (r', ck)"
proof (induction props arbitrary: r)
  case Nil
  then show ?case by simp
next
  case (Cons qs rest)
  obtain q s where qs: "qs = (q, s)" by (cases qs)
  have rest: "\<exists>r'. fixProperties f d rest (r, ck) = Inr (r', ck)" for r
    using Cons.IH[OF Cons.prems(1)] Cons.prems(2) by simp
  from Cons.prems(2) qs have has: "hasProp f q"
    and alt: "(isRepoProp q \<and> isArray (getProp f q)) \<or>
            (Check s (getProp f q) \<and>
             (typeIsObject s \<longrightarrow>
                (\<exists>f'. fixLineByLine (getProp f q) (getProp d q) s = Inr (f', []))))"
    by (auto simp: stableProp_def)
  note nn = Cons.prems(1)
  show ?case
  proof (cases "isRepoProp q \<and> isArray (getProp f q)")
    case True
    with has nn rest show ?thesis unfolding qs by (simp add: Let_def)
  next
    case False
    with alt have c: "Check s (getProp f q)"
      and n: "typeIsObject s \<longrightarrow>
                (\<exists>f'. fixLineByLine (getProp f q) (getProp d q) s = Inr (f', []))"
      by auto
    show ?thesis
    proof (cases "typeIsObject s")
      case True
      with n obtain f' where "fixLineByLine (getProp f q) (getProp d q) s = Inr (f', [])"
        by auto
      with has nn rest False c True show ?thesis unfolding qs
        by (simp add: Let_def Check_single)
    next
      case F: False
      with has nn rest False c show ?thesis unfolding qs
        by (simp add: Let_def Check_single fixSingleProperty_eq)
    qed
  qed
qed

text \<open>A complete, schema-valid document passes through the repair with no changed key.\<close>

lemma repair_stable:
  "wellFormed s \<Longrightarrow> Check s d \<Longrightarrow> completeFor s d \<Longrightarrow> Check s f \<Longrightarrow> completeFor s f \<Longrightarrow>
   \<exists>f'. fixLineByLine f d s = Inr (f', [])"
proof (induction s arbitrary: f d rule: measure_induct_rule[of size])
  case (less s)
  show ?case
  proof (cases "isObjectSchema s \<and> typeofObject f")
    case False
    then have "fixLineByLine f d s =
        Inr (if Check s f then (f, []) else (d, [''<entire_object>'']))"
      by (cases s) (auto simp: Let_def entireObject_def)
    with less.prems(4) show ?thesis by simp
  next
    case True
    then obtain props req rej where s: "s = TObject props req rej" by (cases s) auto
    from less.prems(2) s obtain dkvs where d: "d = JObj dkvs" by (cases d) auto
    then have nn: "\<not> nullish d" by (simp add: nullish_def)
    from less.prems(4) s obtain fkvs where f: "f = JObj fkvs" by (cases f) auto
    have each: "stableProp f d p sub"
      if "(p, sub) \<in> set props" for p sub
    proof -
      from complete_prop[OF less.prems(3)[unfolded s] that] d
      have pin: "p \<in> fst ` set dkvs" and c: "completeFor sub (getProp d p)" by auto
      from Check_prop[OF less.prems(2)[unfolded s d] that pin] d
      have dv: "Check sub (getProp d p)" by simp
      from complete_prop[OF less.prems(5)[unfolded s] that] f
      have pinf: "p \<in> fst ` set fkvs" and cf: "completeFor sub (getProp f p)" by auto
      from Check_prop[OF less.prems(4)[unfolded s f] that pinf] f
      have fv: "Check sub (getProp f p)" by simp
      from less.IH[OF _ wellFormed_prop(1)[OF less.prems(1)[unfolded s] that] dv c fv cf]
        size_prop[OF that] s
      have "\<exists>f'. fixLineByLine (getProp f p) (getProp d p) sub = Inr (f', [])" by auto
      with fv pinf f show ?thesis by (simp add: hasProp_def stableProp_def)
    qed
    then have "list_all (\<lambda>ps. stableProp f d (fst ps) (snd ps)) props"
      by (auto simp: list_all_iff)
    from fixProperties_stable[OF nn this, of "ownEntries (coalesce d (JObj []))" "[]"]
    obtain r' where
      "fixProperties f d props (ownEntries (coalesce d (JObj [])), []) = Inr (r', [])"
      by blast
    with True s show ?thesis by simp
  qed
qed

text \<open>
  Claim C7, as the spec states it for every schema and default, fails. (1) With a
  complete, schema-valid default: under a nested object node that declares
  \<^verbatim>\<open>customUserFocusedRepos\<close> as an array of numbers, the first pass turns \<^verbatim>\<open>[5]\<close>
  into \<^verbatim>\<open>["5"]\<close> without validating it, and the second pass finds the nested object
  invalid and reports \<^verbatim>\<open>repos\<close>. (2) With a schema-valid default that leaves out an
  optional property: the first pass stores the key with the value \<^verbatim>\<open>undefined\<close>, and
  the second pass finds the key present and invalid.
\<close>

theorem repair_idempotent_counterexample:
  "Check nestedRepoSchema (JObj [(''repos'', JObj [(''customUserFocusedRepos'', JArr [])])])
   \<and> completeFor nestedRepoSchema
        (JObj [(''repos'', JObj [(''customUserFocusedRepos'', JArr [])])])
   \<and> fixLineByLine (JObj [(''repos'', JObj [(''customUserFocusedRepos'', JArr [JNum 5])])])
        (JObj [(''repos'', JObj [(''customUserFocusedRepos'', JArr [])])]) nestedRepoSchema
       = Inr (JObj [(''repos'', JObj [(''customUserFocusedRepos'', JArr [JStr ''5''])])], [])
   \<and> fixLineByLine (JObj [(''repos'', JObj [(''customUserFocusedRepos'', JArr [JStr ''5''])])])
        (JObj [(''repos'', JObj [(''customUserFocusedRepos'', JArr [])])]) nestedRepoSchema
       = Inr (JObj [(''repos'', JObj [(''customUserFocusedRepos'', JArr [])])], [''repos''])
   \<and> Check (TObject [(''a'', TString)] [] False) (JObj [])
   \<and> fixLineByLine (JObj []) (JObj []) (TObject [(''a'', TString)] [] False)
       = Inr (JObj [(''a'', JUndef)], [])
   \<and> fixLineByLine (JObj [(''a'', JUndef)]) (JObj []) (TObject [(''a'', TString)] [] False)
       = Inr (JObj [(''a'', JUndef)], [''a''])"
  by code_simp

text \<open>
  Claim C7, amended. For every schema whose object nodes declare each property name once
  and declare the two repository lists as arrays of strings, every default document
  that validates against the schema and defines every declared property, and every
  candidate document: the repair returns a fixed document, and repairing that document
  again (same default, same schema) returns with an empty list of changed keys.
\<close>

theorem repair_idempotent:
  assumes "wellFormed schema" and "Check schema dflt" and "completeFor schema dflt"
  shows "\<exists>fixed changed. fixLineByLine doc dflt schema = Inr (fixed, changed)
           \<and> (\<exists>fixed'. fixLineByLine fixed dflt schema = Inr (fixed', []))"
proof -
  from repair_valid[OF assms, of doc] obtain fixed changed where
    1: "fixLineByLine doc dflt schema = Inr (fixed, changed)"
    and 2: "Check schema fixed" "completeFor schema fixed" by auto
  from repair_stable[OF assms 2] 1 show ?thesis by auto
qed

lemma sample_facts:
  "wellFormed sampleSchema" "Check sampleSchema sampleDefault"
  "completeFor sampleSchema sampleDefault"
  "fixLineByLine sampleDoc sampleDefault sampleSchema = Inr (sampleFixed, [''name''])"
  by code_simp+

theorem repair_idempotent_witness:
  "wellFormed sampleSchema \<and> Check sampleSchema sampleDefault
   \<and> completeFor sampleSchema sampleDefault
   \<and> fixLineByLine sampleDoc sampleDefault sampleSchema = Inr (sampleFixed, [''name''])
   \<and> (\<exists>fixed'. fixLineByLine sampleFixed sampleDefault sampleSchema = Inr (fixed', []))"
  using repair_idempotent[OF sample_facts(1-3), of sampleDoc] sample_facts
  by simp

section \<open>Properties: merging with the Default Document\<close>

lemma spreadInto_JObj: "spreadInto r (JObj src) = assignAll r src"
  by (simp add: spreadInto_def assignAll_def)

lemma alist_ext:
  "distinct (map fst a) \<Longrightarrow> map fst a = map fst b \<Longrightarrow> map_of a = map_of b \<Longrightarrow> a = b"
proof (induction a arbitrary: b)
  case Nil
  then show ?case by simp
next
  case (Cons x a)
  then obtain y b' where b: "b = y # b'" by (cases b) auto
  obtain k v where x: "x = (k, v)" by (cases x)
  from Cons.prems(2) b x obtain w where y: "y = (k, w)" by (cases y) auto
  from fun_cong[OF Cons.prems(3), of k] have "map_of (x # a) k = map_of b k" .
  with b x y have vw: "v = w" by simp
  from Cons.prems(1) x have notin: "k \<notin> fst ` set a" by auto
  from Cons.prems(2) b have keys: "map fst a = map fst b'" by simp
  with notin have notin': "k \<notin> fst ` set b'" by (metis list.set_map)
  have "map_of a = map_of b'"
  proof
    fix z
    show "map_of a z = map_of b' z"
    proof (cases "z = k")
      case True
      from notin have "map_of a k = None" by (simp add: map_of_eq_None_iff)
      moreover from notin' have "map_of b' k = None" by (simp add: map_of_eq_None_iff)
      ultimately show ?thesis using True by simp
    next
      case False
      from fun_cong[OF Cons.prems(3), of z] have "map_of (x # a) z = map_of b z" .
      with False b x y show ?thesis by simp
    qed
  qed
  with Cons.IH[of b'] Cons.prems(1) keys have "a = b'" by simp
  with b x y vw show ?case by simp
qed

lemma keys_setProp_list:
  "map fst (setProp k v r) = (if k \<in> set (map fst r) then map fst r else map fst r @ [k])"
  by (simp add: setProp_def update_keys)

lemma distinct_setProp: "distinct (map fst r) \<Longrightarrow> distinct (map fst (setProp k v r))"
  by (simp add: setProp_def distinct_update)

lemma setProp_new: "k \<notin> fst ` set r \<Longrightarrow> setProp k v r = r @ [(k, v)]"
  by (induction r) (auto simp: setProp_def)

lemma assignAll_append:
  "distinct (map fst (r @ src)) \<Longrightarrow> assignAll r src = r @ src"
proof (induction src arbitrary: r)
  case Nil
  then show ?case by (simp add: assignAll_def)
next
  case (Cons x src)
  obtain k v where x: "x = (k, v)" by (cases x)
  from Cons.prems x have "k \<notin> fst ` set r" by auto
  then have "setProp k v r = r @ [(k, v)]" by (rule setProp_new)
  moreover from Cons.prems x have "distinct (map fst ((r @ [(k, v)]) @ src))" by simp
  ultimately show ?case using Cons.IH[of "r @ [(k, v)]"] x
    by (simp add: assignAll_def)
qed

lemma assignAll_empty: "distinct (map fst src) \<Longrightarrow> assignAll [] src = src"
  using assignAll_append[of "[]" src] by simp

lemma assignAll_Nil: "assignAll r [] = r"
  by (simp add: assignAll_def)

text \<open>On a target without object values at the keys of the source, the merge loop only assigns.\<close>

lemma mergeKeys_flat:
  "\<forall>kv \<in> set src. snd kv \<noteq> JUndef \<and> \<not> (isPlainObject (snd kv) \<and> isPlainObject (getProp (JObj t) (fst kv)))
   \<Longrightarrow> mergeKeys t src r = assignAll r src"
proof (induction src arbitrary: r)
  case Nil
  then show ?case by (simp add: assignAll_def)
next
  case (Cons x src)
  obtain k v where x: "x = (k, v)" by (cases x)
  from Cons.prems x have v: "v \<noteq> JUndef" "\<not> (isPlainObject v \<and> isPlainObject (getProp (JObj t) k))"
    by auto
  have "mergeKeys t (x # src) r = mergeKeys t src (setProp k v r)"
    using v x by (cases v; cases "getProp (JObj t) k") auto
  also have "\<dots> = assignAll (setProp k v r) src" using Cons by simp
  finally show ?case using x by (simp add: assignAll_def)
qed

lemma keys_mergeKeys:
  "\<forall>kv \<in> set src. snd kv \<noteq> JUndef \<Longrightarrow> map fst (mergeKeys t src r) = map fst (assignAll r src)"
proof (induction src arbitrary: r)
  case Nil
  then show ?case by (simp add: assignAll_def)
next
  case (Cons x src)
  obtain k v where x: "x = (k, v)" by (cases x)
  from Cons.prems x have v: "v \<noteq> JUndef" by auto
  obtain w where w: "mergeKeys t (x # src) r = mergeKeys t src (setProp k w r)"
    using v x by (cases v; cases "getProp (JObj t) k") auto
  have same: "map fst (mergeKeys t src r1) = map fst (mergeKeys t src r2)"
    if "map fst r1 = map fst r2" for r1 r2
    using that Cons.prems
  proof (induction src arbitrary: r1 r2)
    case Nil
    then show ?case by simp
  next
    case (Cons y src)
    obtain k' v' where y: "y = (k', v')" by (cases y)
    from Cons.prems(2) y have v': "v' \<noteq> JUndef" by auto
    obtain w' where w': "\<And>r. mergeKeys t (y # src) r = mergeKeys t src (setProp k' w' r)"
      using v' y by (cases v'; cases "getProp (JObj t) k'") auto
    have "map fst (setProp k' w' r1) = map fst (setProp k' w' r2)"
      using Cons.prems(1) by (simp add: keys_setProp_list)
    from Cons.IH[OF this] Cons.prems(2) show ?case by (simp add: w')
  qed
  have "map fst (setProp k w r) = map fst (setProp k v r)" by (simp add: keys_setProp_list)
  from same[OF this] have "map fst (mergeKeys t src (setProp k w r)) = map fst (mergeKeys t src (setProp k v r))" .
  also have "\<dots> = map fst (assignAll (setProp k v r) src)" using Cons by simp
  finally show ?case using w x by (simp add: assignAll_def)
qed

lemma distinct_assignAll: "distinct (map fst r) \<Longrightarrow> distinct (map fst (assignAll r src))"
  by (induction src arbitrary: r) (auto simp: assignAll_def distinct_setProp)

lemma keys_assignAll_mono: "k \<in> fst ` set r \<Longrightarrow> k \<in> fst ` set (assignAll r src)"
proof (induction src arbitrary: r)
  case Nil
  then show ?case by (simp add: assignAll_def)
next
  case (Cons x src)
  obtain q v where x: "x = (q, v)" by (cases x)
  from Cons.prems have "k \<in> fst ` set (setProp q v r)" by (simp add: keys_setProp)
  from Cons.IH[OF this] x show ?case by (simp add: assignAll_def)
qed

lemma assignAll_as_merge:
  "\<forall>kv \<in> set src. snd kv \<noteq> JUndef \<Longrightarrow> assignAll r src = mergeKeys [] src r"
  by (rule mergeKeys_flat[symmetric]) (auto simp: getProp_def)

lemma map_of_assignAll:
  assumes "distinct (map fst src)" "\<forall>kv \<in> set src. snd kv \<noteq> JUndef"
  shows "map_of (assignAll r src) k = (case map_of src k of None \<Rightarrow> map_of r k | Some v \<Rightarrow> Some v)"
proof (cases "map_of src k")
  case None
  then have "k \<notin> fst ` set src" by (simp add: map_of_eq_None_iff)
  with None show ?thesis
    by (simp add: assignAll_as_merge[OF assms(2)] map_of_mergeKeys_notin)
next
  case (Some v)
  then have "(k, v) \<in> set src" by (rule map_of_SomeD)
  with assms(2) have "v \<noteq> JUndef" by auto
  with Some map_of_mergeKeys_in[OF assms(1) Some, of "[]" r] show ?thesis
    by (simp add: assignAll_as_merge[OF assms(2)] getProp_def split: jval.splits)
qed


lemma isJson_defined: "isJson v \<Longrightarrow> v \<noteq> JUndef"
  by auto

lemma isJson_obj:
  assumes "isJson (JObj kvs)"
  shows "distinct (map fst kvs)" "\<forall>kv \<in> set kvs. snd kv \<noteq> JUndef"
    "\<And>k v. map_of kvs k = Some v \<Longrightarrow> isJson v"
  using assms by (auto simp: list_all_iff dest!: map_of_SomeD)

lemma map_of_deepMerge:
  assumes "distinct (map fst src)" "\<forall>kv \<in> set src. snd kv \<noteq> JUndef"
  shows "map_of (deepMerge t src) k =
     (case map_of src k of
        None \<Rightarrow> map_of t k
      | Some v \<Rightarrow> Some (case v of
             JObj s \<Rightarrow> (case getProp (JObj t) k of JObj t' \<Rightarrow> JObj (deepMerge t' s) | _ \<Rightarrow> v)
           | _ \<Rightarrow> v))"
proof (cases "map_of src k")
  case None
  then have "k \<notin> fst ` set src" by (simp add: map_of_eq_None_iff)
  with None show ?thesis by (simp add: map_of_mergeKeys_notin)
next
  case (Some v)
  then have "(k, v) \<in> set src" by (rule map_of_SomeD)
  with assms(2) have "v \<noteq> JUndef" by auto
  with Some map_of_mergeKeys_in[OF assms(1) Some, of t t] show ?thesis by simp
qed

lemma deepMerge_eqI:
  assumes "distinct (map fst t)" "distinct (map fst src)" "\<forall>kv \<in> set src. snd kv \<noteq> JUndef"
    and "map fst R = map fst (assignAll t src)"
    and "\<And>k. map_of R k = map_of (deepMerge t src) k"
  shows "R = deepMerge t src"
proof (rule alist_ext)
  show "distinct (map fst R)" using assms(1,4) by (simp add: distinct_assignAll)
  show "map fst R = map fst (deepMerge t src)"
    using assms(4) keys_mergeKeys[OF assms(3), of t t] by simp
  show "map_of R = map_of (deepMerge t src)" using assms(5) by (rule ext)
qed

lemma setProp_keys_same: "k \<in> fst ` set r \<Longrightarrow> map fst (setProp k v r) = map fst r"
  by (simp add: keys_setProp_list)

lemma deepMerge_flat:
  assumes "\<forall>kv \<in> set src. snd kv \<noteq> JUndef" "\<forall>kv \<in> set t. \<not> isPlainObject (snd kv)"
  shows "deepMerge t src = assignAll t src"
proof -
  have "\<not> isPlainObject (getProp (JObj t) k)" for k
    using assms(2) by (auto simp: getProp_JObj split: option.splits dest!: map_of_SomeD)
  with assms(1) show ?thesis by (simp add: mergeKeys_flat)
qed

text \<open>A section of the defaults without object values, merged with what the document has for it.\<close>

lemma section_flat:
  assumes "distinct (map fst t)" "\<forall>kv \<in> set t. \<not> isPlainObject (snd kv)"
    and "objectOrAbsent pv" "pv = JUndef \<or> isJson pv"
  shows "JObj (spreadInto (spreadInto [] (JObj t)) (coalesce pv (JObj [])))
           = (case pv of JObj s \<Rightarrow> JObj (deepMerge t s) | _ \<Rightarrow> JObj t)"
proof (cases pv)
  case (JObj s)
  with assms(4) have "\<forall>kv \<in> set s. snd kv \<noteq> JUndef" using isJson_obj(2) by blast
  from deepMerge_flat[OF this assms(2)] JObj assms(1) show ?thesis
    by (simp add: spreadInto_JObj assignAll_empty coalesce_def nullish_def)
qed (use assms in \<open>auto simp: objectOrAbsent_def spreadInto_JObj assignAll_empty assignAll_Nil coalesce_def nullish_def\<close>)

lemma codeStyle_object_values:
  "map_of DEFAULT_codeStyle k = Some (JObj x) \<Longrightarrow> k = ''modernize'' \<and> x = DEFAULT_modernize"
proof -
  assume "map_of DEFAULT_codeStyle k = Some (JObj x)"
  then have "(k, JObj x) \<in> set DEFAULT_codeStyle" by (rule map_of_SomeD)
  then show ?thesis by (simp add: DEFAULT_codeStyle_def)
qed

lemma flat_sections:
  "\<forall>kv \<in> set DEFAULT_features. \<not> isPlainObject (snd kv)"
  "\<forall>kv \<in> set DEFAULT_preferredLibraries. \<not> isPlainObject (snd kv)"
  "\<forall>kv \<in> set DEFAULT_monorepo. \<not> isPlainObject (snd kv)"
  "\<forall>kv \<in> set DEFAULT_modernize. \<not> isPlainObject (snd kv)"
  by (simp_all add: DEFAULT_features_def DEFAULT_preferredLibraries_def DEFAULT_monorepo_def
        DEFAULT_modernize_def)

lemma distinct_sections:
  "distinct (map fst DEFAULT_features)"
  "distinct (map fst DEFAULT_preferredLibraries)"
  "distinct (map fst DEFAULT_monorepo)"
  "distinct (map fst DEFAULT_modernize)"
  "distinct (map fst DEFAULT_codeStyle)"
  by (simp_all add: DEFAULT_features_def DEFAULT_preferredLibraries_def DEFAULT_monorepo_def
        DEFAULT_modernize_def DEFAULT_codeStyle_def)

lemma distinct_DEFAULT_CONFIG: "distinct (map fst (DEFAULT_CONFIG e))"
  by (simp add: DEFAULT_CONFIG_def)


lemma setProp_same: "map_of r k = Some v \<Longrightarrow> setProp k v r = r"
  by (simp add: setProp_def update_triv)

lemma getProp_cases:
  assumes "isJson (JObj p)"
  shows "(map_of p k = None \<and> getProp (JObj p) k = JUndef)
       \<or> (\<exists>v. map_of p k = Some v \<and> getProp (JObj p) k = v \<and> isJson v)"
  using isJson_obj(3)[OF assms, of k] by (cases "map_of p k") (auto simp: getProp_JObj)

lemma codeStyle_section:
  assumes "objectOrAbsent pv" "pv = JUndef \<or> isJson pv" "objectOrAbsent (optChain pv ''modernize'')"
  shows "JObj (setProp ''modernize''
           (JObj (spreadInto (spreadInto [] (JObj DEFAULT_modernize))
                    (coalesce (optChain pv ''modernize'') (JObj []))))
           (spreadInto (spreadInto [] (JObj DEFAULT_codeStyle)) (coalesce pv (JObj []))))
         = (case pv of JObj cs \<Rightarrow> JObj (deepMerge DEFAULT_codeStyle cs) | _ \<Rightarrow> JObj DEFAULT_codeStyle)"
proof (cases pv)
  case JUndef
  have "map_of DEFAULT_codeStyle ''modernize'' = Some (JObj DEFAULT_modernize)"
    by (simp add: DEFAULT_codeStyle_def)
  from setProp_same[OF this] JUndef show ?thesis
    by (simp add: optChain_def nullish_def coalesce_def spreadInto_JObj assignAll_empty
          assignAll_Nil distinct_sections)
next
  case (JObj cs)
  with assms(2) have js: "isJson (JObj cs)" by simp
  note cs = isJson_obj[OF js]
  define mv where "mv = getProp (JObj cs) ''modernize''"
  have mv_abs: "objectOrAbsent mv" using assms(3) JObj by (simp add: optChain_def nullish_def mv_def)
  have mv_json: "mv = JUndef \<or> isJson mv"
    using getProp_cases[OF js, of "''modernize''"] by (auto simp: mv_def)
  have X: "JObj (spreadInto (spreadInto [] (JObj DEFAULT_modernize)) (coalesce mv (JObj [])))
           = (case mv of JObj s \<Rightarrow> JObj (deepMerge DEFAULT_modernize s) | _ \<Rightarrow> JObj DEFAULT_modernize)"
    by (rule section_flat[OF distinct_sections(4) flat_sections(4) mv_abs mv_json])
  define Xv where "Xv = (case mv of JObj s \<Rightarrow> JObj (deepMerge DEFAULT_modernize s) | _ \<Rightarrow> JObj DEFAULT_modernize)"
  have min: "''modernize'' \<in> fst ` set DEFAULT_codeStyle" by (simp add: DEFAULT_codeStyle_def)
  have mD: "map_of DEFAULT_codeStyle ''modernize'' = Some (JObj DEFAULT_modernize)"
    by (simp add: DEFAULT_codeStyle_def)
  have "setProp ''modernize'' Xv (assignAll DEFAULT_codeStyle cs) = deepMerge DEFAULT_codeStyle cs"
  proof (rule deepMerge_eqI[OF distinct_sections(5) cs(1) cs(2)])
    show "map fst (setProp ''modernize'' Xv (assignAll DEFAULT_codeStyle cs))
            = map fst (assignAll DEFAULT_codeStyle cs)"
      by (rule setProp_keys_same) (rule keys_assignAll_mono[OF min])
  next
    fix k
    show "map_of (setProp ''modernize'' Xv (assignAll DEFAULT_codeStyle cs)) k
            = map_of (deepMerge DEFAULT_codeStyle cs) k"
    proof (cases "k = ''modernize''")
      case True
      from getProp_cases[OF js, of "''modernize''"] mv_abs
      show ?thesis unfolding True
        by (auto simp: map_of_setProp map_of_deepMerge[OF cs(1) cs(2)] Xv_def mv_def mD
              getProp_JObj objectOrAbsent_def simp del: deepMerge.simps(1) split: jval.splits)
    next
      case False
      show ?thesis
      proof (cases "map_of cs k")
        case None
        with False show ?thesis
          by (simp add: map_of_setProp map_of_deepMerge[OF cs(1) cs(2)]
                map_of_assignAll[OF cs(1) cs(2)] del: deepMerge.simps(1))
      next
        case (Some v)
        have "\<not> (\<exists>x. getProp (JObj DEFAULT_codeStyle) k = JObj x)"
          using codeStyle_object_values[of k] False
          by (auto simp: getProp_JObj split: option.splits)
        with Some False show ?thesis
          by (auto simp: map_of_setProp map_of_deepMerge[OF cs(1) cs(2)]
                map_of_assignAll[OF cs(1) cs(2)] simp del: deepMerge.simps(1) split: jval.splits)
      qed
    qed
  qed
  with X JObj show ?thesis
    by (simp add: Xv_def mv_def optChain_def nullish_def coalesce_def spreadInto_JObj
          assignAll_empty distinct_sections del: deepMerge.simps(1))
qed (use assms in \<open>auto simp: objectOrAbsent_def\<close>)


lemma DEFAULT_object_values:
  assumes "map_of (DEFAULT_CONFIG e) k = Some (JObj x)"
  shows "k \<in> {''preferredLibraries'', ''monorepo'', ''customRules'', ''features'', ''codeStyle''}"
proof -
  from assms have "(k, JObj x) \<in> set (DEFAULT_CONFIG e)" by (rule map_of_SomeD)
  then have "(k, JObj x) \<in> set (filter (\<lambda>kv. isPlainObject (snd kv)) (DEFAULT_CONFIG e))"
    by simp
  moreover have "filter (\<lambda>kv. isPlainObject (snd kv)) (DEFAULT_CONFIG e) =
      [(''preferredLibraries'', JObj DEFAULT_preferredLibraries),
       (''monorepo'', JObj DEFAULT_monorepo), (''customRules'', JObj []),
       (''features'', JObj DEFAULT_features), (''codeStyle'', JObj DEFAULT_codeStyle)]"
    by (simp add: DEFAULT_CONFIG_def)
  ultimately have "(k, JObj x) \<in> set [(''preferredLibraries'', JObj DEFAULT_preferredLibraries),
       (''monorepo'', JObj DEFAULT_monorepo), (''customRules'', JObj []),
       (''features'', JObj DEFAULT_features), (''codeStyle'', JObj DEFAULT_codeStyle)]"
    by simp
  then show ?thesis by auto
qed

lemma DEFAULT_sections:
  "map_of (DEFAULT_CONFIG e) ''features'' = Some (JObj DEFAULT_features)"
  "map_of (DEFAULT_CONFIG e) ''codeStyle'' = Some (JObj DEFAULT_codeStyle)"
  "map_of (DEFAULT_CONFIG e) ''preferredLibraries'' = Some (JObj DEFAULT_preferredLibraries)"
  "map_of (DEFAULT_CONFIG e) ''monorepo'' = Some (JObj DEFAULT_monorepo)"
  "map_of (DEFAULT_CONFIG e) ''customRules'' = Some (JObj [])"
  "map_of (DEFAULT_CONFIG e) ''ignoreDependencies'' = Some (JArr [])"
  by (simp_all add: DEFAULT_CONFIG_def)

lemma DEFAULT_keys:
  "''features'' \<in> fst ` set (DEFAULT_CONFIG e)"
  "''codeStyle'' \<in> fst ` set (DEFAULT_CONFIG e)"
  "''preferredLibraries'' \<in> fst ` set (DEFAULT_CONFIG e)"
  "''monorepo'' \<in> fst ` set (DEFAULT_CONFIG e)"
  "''customRules'' \<in> fst ` set (DEFAULT_CONFIG e)"
  "''ignoreDependencies'' \<in> fst ` set (DEFAULT_CONFIG e)"
  using DEFAULT_sections[of e] by (auto dest!: map_of_SomeD intro: rev_image_eqI)

text \<open>
  Claim C9, as the spec states it for every parsed document, fails: for the document
  \<^verbatim>\<open>{"features": null}\<close> the function \<open>mergeWithDefaults\<close> keeps the default features
  (\<^verbatim>\<open>partial.features ?? {}\<close>), while \<open>deepMerge\<close> of the document into the Default
  Document replaces them by \<^verbatim>\<open>null\<close>.
\<close>

theorem mergeWithDefaults_counterexample:
  "getProp (JObj (mergeWithDefaults sampleEnv (JObj [(''features'', JNull)]))) ''features''
     = JObj DEFAULT_features
   \<and> getProp (JObj (deepMerge (DEFAULT_CONFIG sampleEnv) [(''features'', JNull)])) ''features''
     = JNull
   \<and> mergeWithDefaults sampleEnv (JObj [(''features'', JNull)])
     \<noteq> deepMerge (DEFAULT_CONFIG sampleEnv) [(''features'', JNull)]"
proof -
  have 1: "getProp (JObj (mergeWithDefaults sampleEnv (JObj [(''features'', JNull)]))) ''features''
     = JObj DEFAULT_features"
    by code_simp
  have 2: "getProp (JObj (deepMerge (DEFAULT_CONFIG sampleEnv) [(''features'', JNull)])) ''features''
     = JNull"
    by code_simp
  from 1 2 show ?thesis by auto
qed

text \<open>
  Claim C9, amended. For every parsed document in which each of \<^verbatim>\<open>features\<close>,
  \<^verbatim>\<open>codeStyle\<close>, \<^verbatim>\<open>codeStyle.modernize\<close>, \<^verbatim>\<open>preferredLibraries\<close>, \<^verbatim>\<open>monorepo\<close> and
  \<^verbatim>\<open>customRules\<close> is absent or an object, and \<^verbatim>\<open>ignoreDependencies\<close> is not
  \<^verbatim>\<open>null\<close>, \<open>mergeWithDefaults\<close> of the document is \<open>deepMerge\<close> of the document into
  the Default Document (the same keys in the same order with the same values).
\<close>

theorem mergeWithDefaults_is_deepMerge:
  assumes "isJson (JObj p)" and "sectionsAreObjects (JObj p)"
  shows "mergeWithDefaults e (JObj p) = deepMerge (DEFAULT_CONFIG e) p"
proof -
  define D where "D = DEFAULT_CONFIG e"
  note pj = isJson_obj[OF assms(1)]
  have dD: "distinct (map fst D)" unfolding D_def by (rule distinct_DEFAULT_CONFIG)
  have sec: "objectOrAbsent (getProp (JObj p) ''features'')"
    "objectOrAbsent (getProp (JObj p) ''codeStyle'')"
    "objectOrAbsent (getProp (JObj p) ''preferredLibraries'')"
    "objectOrAbsent (getProp (JObj p) ''monorepo'')"
    "objectOrAbsent (getProp (JObj p) ''customRules'')"
    "objectOrAbsent (optChain (getProp (JObj p) ''codeStyle'') ''modernize'')"
    "getProp (JObj p) ''ignoreDependencies'' \<noteq> JNull"
    using assms(2) by (simp_all add: sectionsAreObjects_def)
  have js: "getProp (JObj p) k = JUndef \<or> isJson (getProp (JObj p) k)" for k
    using getProp_cases[OF assms(1), of k] by auto
  define X1 where "X1 = (case getProp (JObj p) ''features'' of
      JObj s \<Rightarrow> JObj (deepMerge DEFAULT_features s) | _ \<Rightarrow> JObj DEFAULT_features)"
  define X2 where "X2 = (case getProp (JObj p) ''codeStyle'' of
      JObj s \<Rightarrow> JObj (deepMerge DEFAULT_codeStyle s) | _ \<Rightarrow> JObj DEFAULT_codeStyle)"
  define X3 where "X3 = (case getProp (JObj p) ''preferredLibraries'' of
      JObj s \<Rightarrow> JObj (deepMerge DEFAULT_preferredLibraries s) | _ \<Rightarrow> JObj DEFAULT_preferredLibraries)"
  define X4 where "X4 = (case getProp (JObj p) ''monorepo'' of
      JObj s \<Rightarrow> JObj (deepMerge DEFAULT_monorepo s) | _ \<Rightarrow> JObj DEFAULT_monorepo)"
  define X5 where "X5 = (case getProp (JObj p) ''customRules'' of
      JObj s \<Rightarrow> JObj (deepMerge [] s) | _ \<Rightarrow> JObj [])"
  define X6 where "X6 = coalesce (getProp (JObj p) ''ignoreDependencies'') (JArr [])"
  have gD: "getProp (JObj D) ''features'' = JObj DEFAULT_features"
    "getProp (JObj D) ''codeStyle'' = JObj DEFAULT_codeStyle"
    "getProp (JObj D) ''preferredLibraries'' = JObj DEFAULT_preferredLibraries"
    "getProp (JObj D) ''monorepo'' = JObj DEFAULT_monorepo"
    "getProp (JObj D) ''customRules'' = JObj []"
    "getProp (JObj D) ''ignoreDependencies'' = JArr []"
    "getProp (JObj DEFAULT_codeStyle) ''modernize'' = JObj DEFAULT_modernize"
    by (simp_all add: D_def getProp_JObj DEFAULT_sections DEFAULT_codeStyle_def)
  have s1: "JObj (spreadInto (spreadInto [] (JObj DEFAULT_features))
              (coalesce (getProp (JObj p) ''features'') (JObj []))) = X1"
    unfolding X1_def by (rule section_flat[OF distinct_sections(1) flat_sections(1) sec(1) js])
  have s2: "JObj (setProp ''modernize''
           (JObj (spreadInto (spreadInto [] (JObj DEFAULT_modernize))
                    (coalesce (optChain (getProp (JObj p) ''codeStyle'') ''modernize'') (JObj []))))
           (spreadInto (spreadInto [] (JObj DEFAULT_codeStyle))
              (coalesce (getProp (JObj p) ''codeStyle'') (JObj [])))) = X2"
    unfolding X2_def by (rule codeStyle_section[OF sec(2) js sec(6)])
  have s3: "JObj (spreadInto (spreadInto [] (JObj DEFAULT_preferredLibraries))
              (coalesce (getProp (JObj p) ''preferredLibraries'') (JObj []))) = X3"
    unfolding X3_def by (rule section_flat[OF distinct_sections(2) flat_sections(2) sec(3) js])
  have s4: "JObj (spreadInto (spreadInto [] (JObj DEFAULT_monorepo))
              (coalesce (getProp (JObj p) ''monorepo'') (JObj []))) = X4"
    unfolding X4_def by (rule section_flat[OF distinct_sections(3) flat_sections(3) sec(4) js])
  have s5: "JObj (spreadInto (spreadInto [] (JObj []))
              (coalesce (getProp (JObj p) ''customRules'') (JObj []))) = X5"
    unfolding X5_def by (rule section_flat[OF _ _ sec(5) js]) simp_all
  have r0: "spreadInto (spreadInto [] (JObj D)) (JObj p) = assignAll D p"
    by (simp add: spreadInto_JObj assignAll_empty[OF dD])
  have mwd: "mergeWithDefaults e (JObj p) =
      setProp ''ignoreDependencies'' X6 (setProp ''customRules'' X5 (setProp ''monorepo'' X4
        (setProp ''preferredLibraries'' X3 (setProp ''codeStyle'' X2 (setProp ''features'' X1
          (assignAll D p))))))"
    unfolding mergeWithDefaults_def Let_def D_def[symmetric] gD r0 s1 s2 s3 s4 s5 X6_def ..
  have kD: "''features'' \<in> fst ` set (assignAll D p)" "''codeStyle'' \<in> fst ` set (assignAll D p)"
    "''preferredLibraries'' \<in> fst ` set (assignAll D p)" "''monorepo'' \<in> fst ` set (assignAll D p)"
    "''customRules'' \<in> fst ` set (assignAll D p)" "''ignoreDependencies'' \<in> fst ` set (assignAll D p)"
    unfolding D_def by (rule keys_assignAll_mono, rule DEFAULT_keys)+
  have fin: "setProp ''ignoreDependencies'' X6 (setProp ''customRules'' X5 (setProp ''monorepo'' X4
        (setProp ''preferredLibraries'' X3 (setProp ''codeStyle'' X2 (setProp ''features'' X1
          (assignAll D p)))))) = deepMerge D p"
  proof (rule deepMerge_eqI[OF dD pj(1) pj(2)])
    show "map fst (setProp ''ignoreDependencies'' X6 (setProp ''customRules'' X5 (setProp ''monorepo'' X4
        (setProp ''preferredLibraries'' X3 (setProp ''codeStyle'' X2 (setProp ''features'' X1
          (assignAll D p))))))) = map fst (assignAll D p)"
      using kD by (simp add: setProp_keys_same keys_setProp)
  next
    fix k
    have mD: "map_of D ''features'' = Some (JObj DEFAULT_features)"
      "map_of D ''codeStyle'' = Some (JObj DEFAULT_codeStyle)"
      "map_of D ''preferredLibraries'' = Some (JObj DEFAULT_preferredLibraries)"
      "map_of D ''monorepo'' = Some (JObj DEFAULT_monorepo)"
      "map_of D ''customRules'' = Some (JObj [])"
      "map_of D ''ignoreDependencies'' = Some (JArr [])"
      unfolding D_def by (rule DEFAULT_sections)+
    consider "k = ''features''" | "k = ''codeStyle''" | "k = ''preferredLibraries''"
      | "k = ''monorepo''" | "k = ''customRules''" | "k = ''ignoreDependencies''"
      | "k \<notin> {''features'', ''codeStyle'', ''preferredLibraries'', ''monorepo'', ''customRules'',
               ''ignoreDependencies''}" by auto
    then show "map_of (setProp ''ignoreDependencies'' X6 (setProp ''customRules'' X5 (setProp ''monorepo'' X4
        (setProp ''preferredLibraries'' X3 (setProp ''codeStyle'' X2 (setProp ''features'' X1
          (assignAll D p))))))) k = map_of (deepMerge D p) k"
    proof cases
      case 1
      from getProp_cases[OF assms(1), of k] sec(1) show ?thesis unfolding 1
        by (auto simp: map_of_setProp map_of_deepMerge[OF pj(1) pj(2)] X1_def mD gD
              objectOrAbsent_def simp del: deepMerge.simps(1) split: jval.splits)
    next
      case 2
      from getProp_cases[OF assms(1), of k] sec(2) show ?thesis unfolding 2
        by (auto simp: map_of_setProp map_of_deepMerge[OF pj(1) pj(2)] X2_def mD gD
              objectOrAbsent_def simp del: deepMerge.simps(1) split: jval.splits)
    next
      case 3
      from getProp_cases[OF assms(1), of k] sec(3) show ?thesis unfolding 3
        by (auto simp: map_of_setProp map_of_deepMerge[OF pj(1) pj(2)] X3_def mD gD
              objectOrAbsent_def simp del: deepMerge.simps(1) split: jval.splits)
    next
      case 4
      from getProp_cases[OF assms(1), of k] sec(4) show ?thesis unfolding 4
        by (auto simp: map_of_setProp map_of_deepMerge[OF pj(1) pj(2)] X4_def mD gD
              objectOrAbsent_def simp del: deepMerge.simps(1) split: jval.splits)
    next
      case 5
      from getProp_cases[OF assms(1), of k] sec(5) show ?thesis unfolding 5
        by (auto simp: map_of_setProp map_of_deepMerge[OF pj(1) pj(2)] X5_def mD gD
              objectOrAbsent_def simp del: deepMerge.simps(1) split: jval.splits)
    next
      case 6
      from getProp_cases[OF assms(1), of k] sec(7) show ?thesis unfolding 6
        by (auto simp: map_of_setProp map_of_deepMerge[OF pj(1) pj(2)] X6_def mD gD
              coalesce_def nullish_def simp del: deepMerge.simps(1) split: jval.splits)
    next
      case 7
      have no: "\<not> (\<exists>x. getProp (JObj D) k = JObj x)"
        using DEFAULT_object_values[of e k] 7
        by (auto simp: getProp_JObj D_def split: option.splits)
      show ?thesis
      proof (cases "map_of p k")
        case None
        with 7 show ?thesis
          by (simp add: map_of_setProp map_of_deepMerge[OF pj(1) pj(2)]
                map_of_assignAll[OF pj(1) pj(2)] del: deepMerge.simps(1))
      next
        case (Some v)
        with 7 no show ?thesis
          by (auto simp: map_of_setProp map_of_deepMerge[OF pj(1) pj(2)]
                map_of_assignAll[OF pj(1) pj(2)] simp del: deepMerge.simps(1) split: jval.splits)
      qed
    qed
  qed
  show ?thesis unfolding mwd fin by (simp only: D_def)
qed

lemma samplePartial_facts:
  "isJson (JObj samplePartial)" "sectionsAreObjects (JObj samplePartial)"
  by code_simp+

theorem mergeWithDefaults_is_deepMerge_witness:
  "isJson (JObj samplePartial) \<and> sectionsAreObjects (JObj samplePartial)
   \<and> mergeWithDefaults sampleEnv (JObj samplePartial)
       = deepMerge (DEFAULT_CONFIG sampleEnv) samplePartial"
  using mergeWithDefaults_is_deepMerge[OF samplePartial_facts, of sampleEnv] samplePartial_facts
  by simp

section \<open>Properties: the file system\<close>

lemma takeFault_calm:
  "noMoreFaults w \<Longrightarrow> \<exists>w'. takeFault w = (False, w') \<and> files w' = files w \<and> noMoreFaults w'"
  by (cases "faults w") (auto simp: takeFault_def noMoreFaults_def)

lemma copy_calm:
  assumes "noMoreFaults w" "files w src = Some c"
  shows "\<exists>w'. copy src dst w = (Inr (), w') \<and> files w' = (files w)(dst \<mapsto> c) \<and> noMoreFaults w'"
  using takeFault_calm[OF assms(1)] assms(2)
  by (auto simp: copy_def noMoreFaults_def)

lemma remove_calm:
  assumes "noMoreFaults w"
  shows "\<exists>w'. remove p w = (Inr (), w') \<and> files w' = (files w)(p := None) \<and> noMoreFaults w'"
  using takeFault_calm[OF assms(1)]
  by (auto simp: remove_def noMoreFaults_def)











lemma readFile_calm:
  assumes "noMoreFaults w"
  shows "\<exists>w'. readFile p w = ((case files w p of None \<Rightarrow> Inl (IOFailure ''readFile'') | Some c \<Rightarrow> Inr c), w')
           \<and> files w' = files w \<and> noMoreFaults w'"
  using takeFault_calm[OF assms]
  by (auto simp: readFile_def split: option.splits)

lemma writeFile_calm:
  assumes "noMoreFaults w"
  shows "\<exists>w'. writeFile p c w = (Inr (), w') \<and> files w' = (files w)(p \<mapsto> c) \<and> noMoreFaults w'"
  using takeFault_calm[OF assms]
  by (auto simp: writeFile_def noMoreFaults_def)

lemma rename_calm:
  assumes "noMoreFaults w" "files w src = Some c"
  shows "\<exists>w'. rename src dst w = (Inr (), w')
           \<and> files w' = ((files w)(src := None))(dst \<mapsto> c) \<and> noMoreFaults w'"
  using takeFault_calm[OF assms(1)] assms(2)
  by (auto simp: rename_def noMoreFaults_def)

lemma whenExists_copy_calm:
  assumes "noMoreFaults w"
  shows "\<exists>w'. whenExists src (copy src dst) w = (Inr (), w')
           \<and> files w' = (case files w src of None \<Rightarrow> files w | Some c \<Rightarrow> (files w)(dst \<mapsto> c))
           \<and> noMoreFaults w'"
proof (cases "files w src")
  case None
  with assms show ?thesis by (simp add: whenExists_def pathExists_def)
next
  case (Some c)
  with copy_calm[OF assms Some, of dst] show ?thesis
    by (auto simp: whenExists_def pathExists_def)
qed

lemma whenExists_remove_calm:
  assumes "noMoreFaults w"
  shows "\<exists>w'. whenExists p (remove p) w = (Inr (), w')
           \<and> files w' = (files w)(p := None) \<and> noMoreFaults w'"
proof (cases "files w p")
  case None
  then have "(files w)(p := None) = files w" by auto
  with None assms show ?thesis by (simp add: whenExists_def pathExists_def)
next
  case (Some c)
  with remove_calm[OF assms, of p] show ?thesis
    by (auto simp: whenExists_def pathExists_def)
qed

text \<open>A write of a valid document, when no operation throws.\<close>

lemma write_calm:
  assumes "noMoreFaults w" "Check (reliverseConfigSchema e) doc" "doc \<noteq> JUndef"
  shows "\<exists>w'. writeReliverseConfig e p doc w = (Inr (), w')
           \<and> files w' = (files w)(p @ ''.backup'' := None, p @ ''.tmp'' := None,
                                  p \<mapsto> annotated e doc)
           \<and> noMoreFaults w'"
proof -
  from whenExists_copy_calm[OF assms(1), of p "p @ ''.backup''"] obtain w1 where
    1: "whenExists p (copy p (p @ ''.backup'')) w = (Inr (), w1)"
    and f1: "files w1 = (case files w p of None \<Rightarrow> files w | Some c \<Rightarrow> (files w)(p @ ''.backup'' \<mapsto> c))"
    and c1: "noMoreFaults w1" by auto
  from writeFile_calm[OF c1, of "p @ ''.tmp''" "annotated e doc"] obtain w2 where
    2: "writeFile (p @ ''.tmp'') (annotated e doc) w1 = (Inr (), w2)"
    and f2: "files w2 = (files w1)(p @ ''.tmp'' \<mapsto> annotated e doc)"
    and c2: "noMoreFaults w2" by auto
  from f2 have "files w2 (p @ ''.tmp'') = Some (annotated e doc)" by simp
  from rename_calm[OF c2 this, of p] obtain w3 where
    3: "rename (p @ ''.tmp'') p w2 = (Inr (), w3)"
    and f3: "files w3 = ((files w2)(p @ ''.tmp'' := None))(p \<mapsto> annotated e doc)"
    and c3: "noMoreFaults w3" by auto
  from whenExists_remove_calm[OF c3, of "p @ ''.backup''"] obtain w4 where
    4: "whenExists (p @ ''.backup'') (remove (p @ ''.backup'')) w3 = (Inr (), w4)"
    and f4: "files w4 = (files w3)(p @ ''.backup'' := None)"
    and c4: "noMoreFaults w4" by auto
  have "writeTry e p doc w = (Inr (), w4)"
    using assms(2,3) 1 2 3 4
    by (simp add: writeTry_def JSON_stringify_def andThen_def annotated_def
          BACKUP_EXTENSION_def TEMP_EXTENSION_def)
  then have "writeReliverseConfig e p doc w = (Inr (), w4)"
    by (simp add: writeReliverseConfig_def)
  moreover have "files w4 = (files w)(p @ ''.backup'' := None, p @ ''.tmp'' := None,
                                  p \<mapsto> annotated e doc)"
    unfolding f4 f3 f2 f1 by (auto split: option.splits)
  ultimately show ?thesis using c4 by blast
qed

lemma parseReliverseFile_calm:
  assumes "noMoreFaults w"
  shows "\<exists>w'. parseReliverseFile e p w =
            ((case files w p of
                None \<Rightarrow> None
              | Some raw \<Rightarrow>
                  if readable e raw
                  then Some (parseJSONC e (trim raw),
                             Check (reliverseConfigSchema e) (parseJSONC e (trim raw)))
                  else None), w')
           \<and> files w' = files w \<and> noMoreFaults w'"
proof -
  from readFile_calm[OF assms, of p] obtain w' where
    r: "readFile p w = ((case files w p of None \<Rightarrow> Inl (IOFailure ''readFile'') | Some c \<Rightarrow> Inr c), w')"
    and f: "files w' = files w" and c: "noMoreFaults w'" by auto
  show ?thesis
    using r f c by (auto simp: parseReliverseFile_def readable_def Let_def split: option.splits)
qed


lemma read_calm:
  assumes "noMoreFaults w"
  shows "\<exists>w'. readReliverseConfig e p w =
            (Inr (fst (readLayers e (files w p) (files w (p @ ''.backup'')))), w')
           \<and> files w' p = snd (readLayers e (files w p) (files w (p @ ''.backup'')))
           \<and> (fst (readLayers e (files w p) (files w (p @ ''.backup''))) = None \<longrightarrow> files w' = files w)
           \<and> noMoreFaults w'"
proof (cases "files w p")
  case None
  with assms show ?thesis
    by (simp add: readReliverseConfig_def pathExists_def readLayers_def)
next
  case (Some raw)
  from parseReliverseFile_calm[OF assms, of e p] Some obtain w1 where
    pr: "parseReliverseFile e p w =
           ((if readable e raw
             then Some (parseJSONC e (trim raw),
                        Check (reliverseConfigSchema e) (parseJSONC e (trim raw)))
             else None), w1)"
    and f1: "files w1 = files w" and c1: "noMoreFaults w1" by auto
  show ?thesis
  proof (cases "readable e raw")
    case False
    with Some pr f1 c1 show ?thesis
      by (simp add: readReliverseConfig_def pathExists_def readLayers_def)
  next
    case R: True
    define parsed where "parsed = parseJSONC e (trim raw)"
    define merged where "merged = JObj (mergeWithDefaults e parsed)"
    show ?thesis
    proof (cases "Check (reliverseConfigSchema e) parsed")
      case True
      with Some pr f1 c1 R show ?thesis
        by (simp add: readReliverseConfig_def pathExists_def readLayers_def parsed_def Let_def)
    next
      case V: False
      show ?thesis
      proof (cases "Check (reliverseConfigSchema e) merged")
        case True
        from write_calm[OF c1 True, of p] obtain w2 where
          wr: "writeReliverseConfig e p merged w1 = (Inr (), w2)"
          and f2: "files w2 = (files w1)(p @ ''.backup'' := None, p @ ''.tmp'' := None,
                                  p \<mapsto> annotated e merged)"
          and c2: "noMoreFaults w2" by (auto simp: merged_def)
        from Some pr R V True wr f2 c2 show ?thesis
          by (simp add: readReliverseConfig_def pathExists_def readLayers_def parsed_def
                merged_def Let_def andThen_def)
      next
        case M: False
        show ?thesis
        proof (cases "files w (p @ ''.backup'')")
          case None
          with Some pr R V M f1 c1 show ?thesis
            by (simp add: readReliverseConfig_def pathExists_def readLayers_def parsed_def
                  merged_def Let_def backupLayer_def BACKUP_EXTENSION_def)
        next
          case B: (Some braw)
          from parseReliverseFile_calm[OF c1, of e "p @ ''.backup''"] B f1 obtain w2 where
            pb: "parseReliverseFile e (p @ ''.backup'') w1 =
                   ((if readable e braw
                     then Some (parseJSONC e (trim braw),
                                Check (reliverseConfigSchema e) (parseJSONC e (trim braw)))
                     else None), w2)"
            and f2: "files w2 = files w" and c2: "noMoreFaults w2" by auto
          show ?thesis
          proof (cases "readable e braw \<and> Check (reliverseConfigSchema e) (parseJSONC e (trim braw))")
            case True
            from copy_calm[OF c2, of "p @ ''.backup''" braw p] B f2 obtain w3 where
              cp: "copy (p @ ''.backup'') p w2 = (Inr (), w3)"
              and f3: "files w3 = (files w2)(p \<mapsto> braw)" and c3: "noMoreFaults w3" by auto
            from Some B pr pb R V M True cp f1 f3 c3 show ?thesis
              by (simp add: readReliverseConfig_def pathExists_def readLayers_def parsed_def
                    merged_def Let_def backupLayer_def andThen_def BACKUP_EXTENSION_def)
          next
            case False
            with Some B pr pb R V M f1 f2 c2 show ?thesis
              by (auto simp: readReliverseConfig_def pathExists_def readLayers_def parsed_def
                    merged_def Let_def backupLayer_def BACKUP_EXTENSION_def)
          qed
        qed
      qed
    qed
  qed
qed


lemma fixed_defined:
  assumes "typeofObject parsed" "\<not> Check s parsed" "fixLineByLine parsed (JObj D) s = Inr (fixed, changed)"
  shows "fixed \<noteq> JUndef"
proof (cases "isObjectSchema s")
  case True
  then obtain props req rej where "s = TObject props req rej" by (cases s) auto
  with assms(1,3) show ?thesis by (auto split: sum.splits)
next
  case False
  with assms(2,3) show ?thesis by (cases s) (auto simp: Let_def)
qed

lemma parseAndFix_calm:
  assumes "noMoreFaults w"
  shows "\<exists>w'. parseAndFixConfig e p w =
            ((case files w p of None \<Rightarrow> None | Some raw \<Rightarrow> fst (repairLayer e raw)), w')
           \<and> files w' p = (case files w p of None \<Rightarrow> None | Some raw \<Rightarrow> snd (repairLayer e raw))
           \<and> noMoreFaults w'"
proof -
  from readFile_calm[OF assms, of p] obtain w1 where
    r: "readFile p w = ((case files w p of None \<Rightarrow> Inl (IOFailure ''readFile'') | Some c \<Rightarrow> Inr c), w1)"
    and f1: "files w1 = files w" and c1: "noMoreFaults w1" by auto
  show ?thesis
  proof (cases "files w p")
    case None
    with r f1 c1 show ?thesis by (simp add: parseAndFixConfig_def)
  next
    case (Some raw)
    define parsed where "parsed = parseJSONC e raw"
    show ?thesis
    proof (cases "typeofObject parsed \<and> \<not> Check (reliverseConfigSchema e) parsed")
      case False
      with Some r f1 c1 show ?thesis
        by (auto simp: parseAndFixConfig_def repairLayer_def parsed_def Let_def)
    next
      case T: True
      show ?thesis
      proof (cases "fixLineByLine parsed (JObj (DEFAULT_CONFIG e)) (reliverseConfigSchema e)")
        case (Inl err)
        with Some r f1 c1 T show ?thesis
          by (auto simp: parseAndFixConfig_def repairLayer_def parsed_def Let_def)
      next
        case (Inr res)
        obtain fixed changed where res: "res = (fixed, changed)" by (cases res)
        show ?thesis
        proof (cases "Check (reliverseConfigSchema e) fixed")
          case False
          with Some r f1 c1 T Inr res show ?thesis
            by (auto simp: parseAndFixConfig_def repairLayer_def parsed_def Let_def)
        next
          case True
          from fixed_defined[of parsed "reliverseConfigSchema e" "DEFAULT_CONFIG e" fixed changed]
            T Inr res have "fixed \<noteq> JUndef" by simp
          from write_calm[OF c1 True this, of p] obtain w2 where
            wr: "writeReliverseConfig e p fixed w1 = (Inr (), w2)"
            and f2: "files w2 = (files w1)(p @ ''.backup'' := None, p @ ''.tmp'' := None,
                                  p \<mapsto> annotated e fixed)"
            and c2: "noMoreFaults w2" by auto
          from Some r T Inr res True wr f2 c2 show ?thesis
            by (auto simp: parseAndFixConfig_def repairLayer_def parsed_def Let_def)
        qed
      qed
    qed
  qed
qed

section \<open>Properties: the Config Reader\<close>

lemma backupFirst_facts:
  "noMoreFaults backupFirstWorld"
  "path_join ''proj'' (cliConfigJsonc sampleEnv) = ''proj/reliverse.jsonc''"
  "fst (reReadReliverseConfig sampleEnv ''proj'' backupFirstWorld)
     = Inr (Some (JObj [(''projectName'', JStr ''old'')]))"
  "files (snd (reReadReliverseConfig sampleEnv ''proj'' backupFirstWorld)) ''proj/reliverse.jsonc''
     = Some oldNameText"
  "(case configReaderSpec sampleEnv (files backupFirstWorld ''proj/reliverse.jsonc'')
           (files backupFirstWorld ''proj/reliverse.jsonc.backup'') of
      None \<Rightarrow> False
    | Some doc \<Rightarrow> getProp doc ''projectName'' = JStr ''unknown'')"
  "configReaderLayers sampleEnv (files backupFirstWorld ''proj/reliverse.jsonc'')
           (files backupFirstWorld ''proj/reliverse.jsonc.backup'')
     = (Some (JObj [(''projectName'', JStr ''old'')]), Some oldNameText)"
  by code_simp+

text \<open>
  Claim C3, as the spec orders the layers, fails: the backup is restored before any
  line-by-line repair is tried. With the primary file \<^verbatim>\<open>{"projectName": 5}\<close> and the
  backup file \<^verbatim>\<open>{"projectName": "old"}\<close> the reader returns the document of the
  backup, while the order of the spec (\<open>configReaderSpec\<close>) gives the repaired primary
  document, whose \<^verbatim>\<open>projectName\<close> is the default.
\<close>

theorem configReader_order_counterexample:
  "fst (reReadReliverseConfig sampleEnv ''proj'' backupFirstWorld)
     = Inr (Some (JObj [(''projectName'', JStr ''old'')]))
   \<and> (case configReaderSpec sampleEnv (files backupFirstWorld ''proj/reliverse.jsonc'')
             (files backupFirstWorld ''proj/reliverse.jsonc.backup'') of
        None \<Rightarrow> False
      | Some doc \<Rightarrow> getProp doc ''projectName'' = JStr ''unknown'')
   \<and> fst (reReadReliverseConfig sampleEnv ''proj'' backupFirstWorld)
       \<noteq> Inr (configReaderSpec sampleEnv (files backupFirstWorld ''proj/reliverse.jsonc'')
                (files backupFirstWorld ''proj/reliverse.jsonc.backup''))"
  using backupFirst_facts(3) backupFirst_facts(5)
  by (auto simp: getProp_JObj split: option.splits)

text \<open>
  Claim C3, amended. For every config path, when no file operation throws, the reader
  applies its layers in the order of \<open>configReaderLayers\<close>, stopping at the first that
  yields a schema-valid document: (1) the parsed document as it is, if valid; for an
  absent, empty, \<^verbatim>\<open>{}\<close> or non-object file \<open>readReliverseConfig\<close> gives up at once;
  (2) the parsed content merged with the defaults, persisted and returned, if valid;
  (3) the backup file, restored and returned, if it parses to a valid document; and
  only when \<open>readReliverseConfig\<close> has returned \<^verbatim>\<open>null\<close>: (4) the line-by-line repair
  of the parsed primary file, persisted and returned, if valid; (5) otherwise
  \<^verbatim>\<open>null\<close>. The theorem gives the returned document and the text of the primary file
  afterwards.
\<close>

theorem configReader_layers:
  assumes "noMoreFaults w"
  shows "\<exists>w'. reReadReliverseConfig e cwd w =
            (Inr (fst (configReaderLayers e
                         (files w (path_join cwd (cliConfigJsonc e)))
                         (files w (path_join cwd (cliConfigJsonc e) @ ''.backup'')))), w')
           \<and> files w' (path_join cwd (cliConfigJsonc e)) =
               snd (configReaderLayers e
                      (files w (path_join cwd (cliConfigJsonc e)))
                      (files w (path_join cwd (cliConfigJsonc e) @ ''.backup'')))"
proof -
  define p where "p = path_join cwd (cliConfigJsonc e)"
  from read_calm[OF assms, of e p] obtain w1 where
    rd: "readReliverseConfig e p w =
            (Inr (fst (readLayers e (files w p) (files w (p @ ''.backup'')))), w1)"
    and f1: "files w1 p = snd (readLayers e (files w p) (files w (p @ ''.backup'')))"
    and n1: "fst (readLayers e (files w p) (files w (p @ ''.backup''))) = None \<longrightarrow> files w1 = files w"
    and c1: "noMoreFaults w1" by auto
  show ?thesis
  proof (cases "fst (readLayers e (files w p) (files w (p @ ''.backup'')))")
    case (Some doc)
    with rd f1 show ?thesis
      unfolding p_def[symmetric]
      by (auto simp: reReadReliverseConfig_def Let_def configReaderLayers_def p_def
            split: prod.splits)
  next
    case None
    with n1 have same: "files w1 = files w" by simp
    from parseAndFix_calm[OF c1, of e p] same obtain w2 where
      pf: "parseAndFixConfig e p w1 =
            ((case files w p of None \<Rightarrow> None | Some raw \<Rightarrow> fst (repairLayer e raw)), w2)"
      and f2: "files w2 p = (case files w p of None \<Rightarrow> None | Some raw \<Rightarrow> snd (repairLayer e raw))"
      by auto
    from None rd pf f2 show ?thesis
      unfolding p_def[symmetric]
      by (auto simp: reReadReliverseConfig_def Let_def configReaderLayers_def p_def
            split: prod.splits option.splits)
  qed
qed

theorem configReader_layers_witness:
  "noMoreFaults backupFirstWorld
   \<and> (\<exists>w'. reReadReliverseConfig sampleEnv ''proj'' backupFirstWorld
              = (Inr (Some (JObj [(''projectName'', JStr ''old'')])), w')
          \<and> files w' ''proj/reliverse.jsonc'' = Some oldNameText)"
  using configReader_layers[OF backupFirst_facts(1), of sampleEnv "''proj''"]
    backupFirst_facts(1)
  by (simp add: backupFirst_facts(2) backupFirst_facts(6))

section \<open>Properties: write and read\<close>







section \<open>Properties: migration\<close>

lemma readFile_files: "readFile p w = (r, w1) \<Longrightarrow> files w1 = files w"
  by (cases "faults w") (auto simp: readFile_def takeFault_def split: option.splits bool.splits if_splits)

lemma fails_facts:
  "fst (readFile ''ext.jsonc'' migrateFailsWorld) = Inr versionText"
  "typeofObject (parseJSONC sampleEnv versionText)"
  "fst (updateReliverseConfig sampleEnv ''proj''
       (pickKeys keysToMigrate (parseJSONC sampleEnv versionText) [])
       (snd (readFile ''ext.jsonc'' migrateFailsWorld))) = Inr False"
  "files (snd (updateReliverseConfig sampleEnv ''proj''
       (pickKeys keysToMigrate (parseJSONC sampleEnv versionText) [])
       (snd (readFile ''ext.jsonc'' migrateFailsWorld)))) ''proj/reliverse.jsonc'' = None"
  "noMoreFaults (snd (updateReliverseConfig sampleEnv ''proj''
       (pickKeys keysToMigrate (parseJSONC sampleEnv versionText) [])
       (snd (readFile ''ext.jsonc'' migrateFailsWorld))))"
  "files (migrateReliverseConfig sampleEnv ''ext.jsonc'' ''proj'' migrateFailsWorld) ''ext.jsonc'' = None"
  "files (migrateReliverseConfig sampleEnv ''ext.jsonc'' ''proj'' migrateFailsWorld) ''proj/reliverse.jsonc'' = None"
  by code_simp+

lemma ok_facts:
  "fst (readFile ''ext.jsonc'' migrateWorld) = Inr licenseText"
  "typeofObject (parseJSONC sampleEnv licenseText)"
  "fst (updateReliverseConfig sampleEnv ''proj''
       (pickKeys keysToMigrate (parseJSONC sampleEnv licenseText) [])
       (snd (readFile ''ext.jsonc'' migrateWorld))) = Inr True"
  "noMoreFaults (snd (updateReliverseConfig sampleEnv ''proj''
       (pickKeys keysToMigrate (parseJSONC sampleEnv licenseText) [])
       (snd (readFile ''ext.jsonc'' migrateWorld))))"
  "parseJSONC sampleEnv (the (files (snd (updateReliverseConfig sampleEnv ''proj''
       (pickKeys keysToMigrate (parseJSONC sampleEnv licenseText) [])
       (snd (readFile ''ext.jsonc'' migrateWorld)))) ''proj/reliverse.jsonc''))
     = JObj [(''projectName'', JStr ''demo''), (''projectLicense'', JStr ''MIT'')]"
  by code_simp+

text \<open>
  Claim C2, as the spec states it, fails: the external document is removed whether or not
  the update succeeded. With the external document \<^verbatim>\<open>{"version": 5}\<close> and no config
  file, the merged document lacks the required \<^verbatim>\<open>projectName\<close>, so
  \<open>updateReliverseConfig\<close> returns \<^verbatim>\<open>false\<close> and writes nothing; the external document
  is deleted all the same.
\<close>

theorem migrate_counterexample:
  "files migrateFailsWorld ''ext.jsonc'' = Some versionText
   \<and> fst (updateReliverseConfig sampleEnv ''proj''
            (pickKeys keysToMigrate (parseJSONC sampleEnv versionText) [])
            (snd (readFile ''ext.jsonc'' migrateFailsWorld))) = Inr False
   \<and> files (migrateReliverseConfig sampleEnv ''ext.jsonc'' ''proj'' migrateFailsWorld)
        ''ext.jsonc'' = None
   \<and> files (migrateReliverseConfig sampleEnv ''ext.jsonc'' ''proj'' migrateFailsWorld)
        ''proj/reliverse.jsonc'' = None"
  using fails_facts by (simp add: migrateFailsWorld_def)

text \<open>
  Claim C2, amended. For every invocation of the migration whose external document
  could be read: when the document does not parse to an object, no file is changed;
  when it does, and \<open>updateReliverseConfig\<close> returns (\<^verbatim>\<open>true\<close> or \<^verbatim>\<open>false\<close>) and the
  removal does not throw, the files afterwards are those that the update left, without
  the external document.
\<close>

theorem migrate_external_removal:
  assumes "readFile ext w = (Inr content, w1)"
  shows "(\<not> typeofObject (parseJSONC e content)
            \<longrightarrow> files (migrateReliverseConfig e ext projectPath w) = files w)
       \<and> (\<forall>success w2.
             typeofObject (parseJSONC e content)
             \<and> updateReliverseConfig e projectPath
                  (pickKeys keysToMigrate (parseJSONC e content) []) w1 = (Inr success, w2)
             \<and> noMoreFaults w2
            \<longrightarrow> files (migrateReliverseConfig e ext projectPath w) = (files w2)(ext := None))"
proof (intro conjI allI impI)
  assume "\<not> typeofObject (parseJSONC e content)"
  with assms readFile_files[OF assms]
  show "files (migrateReliverseConfig e ext projectPath w) = files w"
    by (simp add: migrateReliverseConfig_def andThen_def Let_def)
next
  fix success w2
  assume a: "typeofObject (parseJSONC e content)
             \<and> updateReliverseConfig e projectPath
                  (pickKeys keysToMigrate (parseJSONC e content) []) w1 = (Inr success, w2)
             \<and> noMoreFaults w2"
  from remove_calm[of w2 ext] a obtain w3 where
    "remove ext w2 = (Inr (), w3)" "files w3 = (files w2)(ext := None)" by auto
  with assms a show "files (migrateReliverseConfig e ext projectPath w) = (files w2)(ext := None)"
    by (simp add: migrateReliverseConfig_def andThen_def Let_def)
qed

theorem migrate_external_removal_witness:
  "fst (updateReliverseConfig sampleEnv ''proj''
          (pickKeys keysToMigrate (parseJSONC sampleEnv licenseText) [])
          (snd (readFile ''ext.jsonc'' migrateWorld))) = Inr True
   \<and> files (migrateReliverseConfig sampleEnv ''ext.jsonc'' ''proj'' migrateWorld)
       = (files (snd (updateReliverseConfig sampleEnv ''proj''
                   (pickKeys keysToMigrate (parseJSONC sampleEnv licenseText) [])
                   (snd (readFile ''ext.jsonc'' migrateWorld)))))(''ext.jsonc'' := None)
   \<and> files (migrateReliverseConfig sampleEnv ''ext.jsonc'' ''proj'' migrateFailsWorld)
       = (files (snd (updateReliverseConfig sampleEnv ''proj''
                   (pickKeys keysToMigrate (parseJSONC sampleEnv versionText) [])
                   (snd (readFile ''ext.jsonc'' migrateFailsWorld)))))(''ext.jsonc'' := None)"
proof -
  have r1: "readFile ''ext.jsonc'' migrateWorld
              = (Inr licenseText, snd (readFile ''ext.jsonc'' migrateWorld))"
    using ok_facts(1) by (simp add: prod_eq_iff)
  have u1: "updateReliverseConfig sampleEnv ''proj''
              (pickKeys keysToMigrate (parseJSONC sampleEnv licenseText) [])
              (snd (readFile ''ext.jsonc'' migrateWorld))
            = (Inr True, snd (updateReliverseConfig sampleEnv ''proj''
                 (pickKeys keysToMigrate (parseJSONC sampleEnv licenseText) [])
                 (snd (readFile ''ext.jsonc'' migrateWorld))))"
    using ok_facts(3) by (simp add: prod_eq_iff)
  have r2: "readFile ''ext.jsonc'' migrateFailsWorld
              = (Inr versionText, snd (readFile ''ext.jsonc'' migrateFailsWorld))"
    using fails_facts(1) by (simp add: prod_eq_iff)
  have u2: "updateReliverseConfig sampleEnv ''proj''
              (pickKeys keysToMigrate (parseJSONC sampleEnv versionText) [])
              (snd (readFile ''ext.jsonc'' migrateFailsWorld))
            = (Inr False, snd (updateReliverseConfig sampleEnv ''proj''
                 (pickKeys keysToMigrate (parseJSONC sampleEnv versionText) [])
                 (snd (readFile ''ext.jsonc'' migrateFailsWorld))))"
    using fails_facts(3) by (simp add: prod_eq_iff)
  from migrate_external_removal[OF r1, of sampleEnv "''proj''"] ok_facts(2) u1 ok_facts(4)
  have a: "files (migrateReliverseConfig sampleEnv ''ext.jsonc'' ''proj'' migrateWorld)
       = (files (snd (updateReliverseConfig sampleEnv ''proj''
                   (pickKeys keysToMigrate (parseJSONC sampleEnv licenseText) [])
                   (snd (readFile ''ext.jsonc'' migrateWorld)))))(''ext.jsonc'' := None)"
    by blast
  from migrate_external_removal[OF r2, of sampleEnv "''proj''"] fails_facts(2) u2 fails_facts(5)
  have b: "files (migrateReliverseConfig sampleEnv ''ext.jsonc'' ''proj'' migrateFailsWorld)
       = (files (snd (updateReliverseConfig sampleEnv ''proj''
                   (pickKeys keysToMigrate (parseJSONC sampleEnv versionText) [])
                   (snd (readFile ''ext.jsonc'' migrateFailsWorld)))))(''ext.jsonc'' := None)"
    by blast
  from ok_facts(3) a b show ?thesis by simp
qed

end
